theory Spec2Isabelle
  imports Complex_Main "HOL-Library.Sublist"
begin

section \<open>Data model\<close>

text \<open>
  The program is a single Flask module, \<^verbatim>\<open>app.py\<close>. Python strings are modelled as
  \<^typ>\<open>string\<close> (one \<^typ>\<open>char\<close> per code point below 256), Python integers as
  \<^typ>\<open>int\<close>, and the second counts that Whisper and pyannote deliver, finite doubles, as
  the rationals they are. On them the operations \<^verbatim>\<open>//\<close> and \<^verbatim>\<open>%\<close> of
  \<open>format_timestamp\<close> are exact and the \<^verbatim>\<open>.3f\<close> conversion is correctly rounded; the
  sum and the halving of \<open>get_speaker_for_segment\<close> are rounded to the nearest double as
  the processor does. Exceptions are values of \<open>py_error\<close>; a function that can raise
  returns a sum whose left injection is the exception.
\<close>

datatype py_error =
    KeyError string
  | IndexError string
  | ValueError string
  | AttributeError string

text \<open>One transcription segment: \<^verbatim>\<open>segment["start"]\<close>, \<^verbatim>\<open>segment["end"]\<close>, \<^verbatim>\<open>segment["text"]\<close>.\<close>

record segment =
  seg_start :: rat
  seg_end :: rat
  seg_text :: string

text \<open>
  One item of \<^verbatim>\<open>diarization.itertracks(yield_label=True)\<close>: the turn's \<^verbatim>\<open>start\<close> and
  \<^verbatim>\<open>end\<close> and the speaker label. The diarization is the list of these items in the order
  the iterator yields them, or \<open>None\<close>.
\<close>

record turn =
  turn_start :: rat
  turn_end :: rat
  speaker :: string

text \<open>The entry \<^verbatim>\<open>generated_files[uid]\<close>: a dict with exactly these four keys.\<close>

record job =
  vtt :: string
  transcript :: string
  video_path :: string
  job_placeholder_map :: "(string \<times> string) list"

datatype job_value = StrVal string | DictVal "(string \<times> string) list"

datatype response =
    RenderIndex "string option"
  | RenderEdit string "string list"
  | RenderFinal string
  | NotFound string
  | SendFile string string string
  | SendPath string

section \<open>Python primitives\<close>

text \<open>\<^verbatim>\<open>str.isspace\<close> on the code points below 256, and \<^verbatim>\<open>str.strip()\<close>.\<close>

definition isspace :: "char \<Rightarrow> bool" where
  "isspace c = (c \<in> set [CHR 0x09, CHR 0x0A, CHR 0x0B, CHR 0x0C, CHR 0x0D,
                          CHR 0x1C, CHR 0x1D, CHR 0x1E, CHR 0x1F, CHR 0x20, CHR 0x85, CHR 0xA0])"

definition strip :: "string \<Rightarrow> string" where
  "strip s = rev (dropWhile isspace (rev (dropWhile isspace s)))"

text \<open>\<^verbatim>\<open>sep.join(lines)\<close>.\<close>

fun join :: "string \<Rightarrow> string list \<Rightarrow> string" where
  "join sep [] = []"
| "join sep [x] = x"
| "join sep (x # y # ys) = x @ sep @ join sep (y # ys)"

text \<open>
  \<^verbatim>\<open>s.replace(old, new)\<close>: the occurrences of \<open>old\<close> are found from the left and do not
  overlap; an empty \<open>old\<close> matches before every character and at the end.
\<close>

function replace :: "string \<Rightarrow> string \<Rightarrow> string \<Rightarrow> string" where
  "replace old new [] = (if old = [] then new else [])"
| "replace old new (c # cs) =
     (if old = [] then new @ c # replace old new cs
      else if prefix old (c # cs) then new @ replace old new (drop (length old) (c # cs))
      else c # replace old new cs)"
  by pat_completeness auto
termination
  by (relation "measure (\<lambda>(old, new, s). length s)") auto

text \<open>\<^verbatim>\<open>x.split(sep)\<close> for a one-character separator.\<close>

fun split_char :: "char \<Rightarrow> string \<Rightarrow> string list" where
  "split_char sep [] = [[]]"
| "split_char sep (c # cs) =
     (if c = sep then [] # split_char sep cs
      else (case split_char sep cs of [] \<Rightarrow> [[c]] | w # ws \<Rightarrow> (c # w) # ws))"

text \<open>
  \<^verbatim>\<open>int(s)\<close> on non-empty strings of decimal digits, which is what follows the
  underscore in every placeholder the loop assigns; every other string is rejected here.
\<close>

definition is_digit :: "char \<Rightarrow> bool" where
  "is_digit c = (c \<in> set ''0123456789'')"

definition digit_val :: "char \<Rightarrow> int" where
  "digit_val c = of_char c - 48"

definition py_int :: "string \<Rightarrow> py_error + int" where
  "py_int s =
     (if s \<noteq> [] \<and> list_all is_digit s then Inr (foldl (\<lambda>a c. 10 * a + digit_val c) 0 s)
      else Inl (ValueError ''invalid literal for int() with base 10''))"

text \<open>Decimal digits of a non-negative integer, and zero padding on the left.\<close>

definition digit_char :: "int \<Rightarrow> char" where
  "digit_char n = ''0123456789'' ! nat n"

function dec :: "int \<Rightarrow> string" where
  "dec n = (if n < 10 then [digit_char n] else dec (n div 10) @ [digit_char (n mod 10)])"
  by pat_completeness auto
termination
  by (relation "measure nat") auto

declare dec.simps [simp del]

definition zfill :: "nat \<Rightarrow> string \<Rightarrow> string" where
  "zfill w s = replicate (w - length s) (CHR ''0'') @ s"

text \<open>The format specification \<^verbatim>\<open>02d\<close>: sign-aware zero padding to width 2.\<close>

definition fmt_02d :: "int \<Rightarrow> string" where
  "fmt_02d n = (if n < 0 then CHR ''-'' # zfill 1 (dec (- n)) else zfill 2 (dec n))"

text \<open>
  The format specification \<^verbatim>\<open>06.3f\<close>: the value is rounded to three decimals, ties to the
  even neighbour, and zero padded to width 6.
\<close>

definition round_half_even :: "rat \<Rightarrow> int" where
  "round_half_even x =
     (let f = \<lfloor>x\<rfloor>; d = x - of_int f
      in if d < 1 / 2 then f else if 1 / 2 < d then f + 1 else if even f then f else f + 1)"

definition fmt_06_3f :: "rat \<Rightarrow> string" where
  "fmt_06_3f x =
     (let m = round_half_even (\<bar>x\<bar> * 1000);
          body = dec (m div 1000) @ ''.'' @ zfill 3 (dec (m mod 1000))
      in if x < 0 then CHR ''-'' # zfill 5 body else zfill 6 body)"

text \<open>\<^verbatim>\<open>x % m\<close> and \<^verbatim>\<open>int(x // m)\<close> on numbers.\<close>

definition py_mod :: "rat \<Rightarrow> rat \<Rightarrow> rat" where
  "py_mod x m = x - m * of_int \<lfloor>x / m\<rfloor>"

definition py_floordiv :: "rat \<Rightarrow> rat \<Rightarrow> int" where
  "py_floordiv x m = \<lfloor>x / m\<rfloor>"

text \<open>
  Binary floating point. The operands are finite doubles, that is rationals; the value of
  an arithmetic expression on them is a finite double again or an infinity. \<open>round_double\<close>
  is the rounding of IEEE 754 binary64, to the nearest double with ties to the even
  significand: the exponent \<open>e\<close> of a positive \<open>a\<close> has \<open>2 ^ e \<le> a < 2 ^ (e + 1)\<close>, it is
  not taken below -1022 (subnormal numbers), the spacing of the doubles at \<open>a\<close> is
  \<open>2 ^ (e - 52)\<close>, and \<open>a\<close> is rounded to the multiple \<open>m\<close> of that spacing. A result of
  \<open>2 ^ 1024\<close> or more is an infinity: that is the case when \<open>e\<close> is 1024 or more, or \<open>e\<close> is
  1023 and \<open>m\<close> has reached \<open>2 ^ 53 = 9007199254740992\<close>.
\<close>

datatype float_val = Fin rat | PosInf | NegInf

function pow2 :: "int \<Rightarrow> rat" where
  "pow2 n = (if n = 0 then 1 else if n < 0 then pow2 (n + 1) / 2 else 2 * pow2 (n - 1))"
  by pat_completeness auto
termination
  by (relation "measure (\<lambda>n. nat \<bar>n\<bar>)") auto

declare pow2.simps [simp del]

function exponent_up :: "rat \<Rightarrow> int" where
  "exponent_up a = (if a < 2 then 0 else 1 + exponent_up (a / 2))"
  by pat_completeness auto
termination
proof (relation "measure (\<lambda>a. nat \<lfloor>a\<rfloor>)")
  show "wf (measure (\<lambda>a. nat \<lfloor>a\<rfloor>))" by simp
next
  fix a :: rat
  assume "\<not> a < 2"
  then have "a / 2 \<le> a - 1" by simp
  then have "\<lfloor>a / 2\<rfloor> \<le> \<lfloor>a - 1\<rfloor>" by (rule floor_mono)
  moreover have "1 \<le> \<lfloor>a\<rfloor>" using \<open>\<not> a < 2\<close> by (simp add: le_floor_iff)
  ultimately show "(a / 2, a) \<in> measure (\<lambda>a. nat \<lfloor>a\<rfloor>)" by simp
qed

declare exponent_up.simps [simp del]

function exponent_down :: "rat \<Rightarrow> int" where
  "exponent_down a = (if a \<le> 0 \<or> 1 \<le> a then 0 else exponent_down (a * 2) - 1)"
  by pat_completeness auto
termination
proof (relation "measure (\<lambda>a. nat \<lfloor>1 / a\<rfloor>)")
  show "wf (measure (\<lambda>a. nat \<lfloor>1 / a\<rfloor>))" by simp
next
  fix a :: rat
  assume "\<not> (a \<le> 0 \<or> 1 \<le> a)"
  then have a: "0 < a" "a < 1" by simp_all
  then have one: "1 \<le> \<lfloor>1 / a\<rfloor>" by (simp add: le_floor_iff)
  have "1 / a < of_int \<lfloor>1 / a\<rfloor> + 1" by linarith
  then have "1 / (a * 2) < (of_int \<lfloor>1 / a\<rfloor> + 1) / 2" by simp
  also have "\<dots> \<le> of_int \<lfloor>1 / a\<rfloor>" using one by simp
  finally have "\<lfloor>1 / (a * 2)\<rfloor> < \<lfloor>1 / a\<rfloor>" by (simp add: floor_less_iff)
  with one show "(a * 2, a) \<in> measure (\<lambda>a. nat \<lfloor>1 / a\<rfloor>)" by simp
qed

declare exponent_down.simps [simp del]

definition exponent :: "rat \<Rightarrow> int" where
  "exponent a = (if 1 \<le> a then exponent_up a else exponent_down a)"

definition round_double :: "rat \<Rightarrow> float_val" where
  "round_double x =
     (if x = 0 then Fin 0
      else let a = \<bar>x\<bar>;
               e = max (exponent a) (- 1022);
               ulp = pow2 (e - 52);
               m = round_half_even (a / ulp)
           in if 1024 \<le> e \<or> (e = 1023 \<and> 9007199254740992 \<le> m)
              then (if x < 0 then NegInf else PosInf)
              else Fin (if x < 0 then - (of_int m * ulp) else of_int m * ulp))"

text \<open>\<^verbatim>\<open>x + y\<close> and \<^verbatim>\<open>v / 2\<close> on floats, and \<^verbatim>\<open>v <= w\<close>.\<close>

definition float_add :: "rat \<Rightarrow> rat \<Rightarrow> float_val" where
  "float_add x y = round_double (x + y)"

definition float_half :: "float_val \<Rightarrow> float_val" where
  "float_half v = (case v of Fin s \<Rightarrow> round_double (s / 2) | PosInf \<Rightarrow> PosInf | NegInf \<Rightarrow> NegInf)"

fun float_le :: "float_val \<Rightarrow> float_val \<Rightarrow> bool" where
  "float_le (Fin a) (Fin b) = (a \<le> b)"
| "float_le NegInf w = True"
| "float_le (Fin a) PosInf = True"
| "float_le PosInf PosInf = True"
| "float_le (Fin a) NegInf = False"
| "float_le PosInf (Fin b) = False"
| "float_le PosInf NegInf = False"

text \<open>Python dicts keep insertion order: association lists with unique keys.\<close>

definition dict_mem :: "('k \<times> 'v) list \<Rightarrow> 'k \<Rightarrow> bool" where
  "dict_mem d k = (k \<in> set (map fst d))"

fun dict_set :: "('k \<times> 'v) list \<Rightarrow> 'k \<Rightarrow> 'v \<Rightarrow> ('k \<times> 'v) list" where
  "dict_set [] k v = [(k, v)]"
| "dict_set ((k', v') # d) k v = (if k' = k then (k, v) # d else (k', v') # dict_set d k v)"

definition dict_get :: "(string \<times> 'v) list \<Rightarrow> string \<Rightarrow> py_error + 'v" where
  "dict_get d k = (case map_of d k of None \<Rightarrow> Inl (KeyError k) | Some v \<Rightarrow> Inr v)"

section \<open>The functions of app.py\<close>

subsection \<open>format_timestamp\<close>

definition format_timestamp :: "rat \<Rightarrow> string" where
  "format_timestamp seconds =
     (let hours = py_floordiv seconds 3600;
          minutes = py_floordiv (py_mod seconds 3600) 60;
          secs = py_mod seconds 60
      in fmt_02d hours @ '':'' @ fmt_02d minutes @ '':'' @ fmt_06_3f secs)"

subsection \<open>get_speaker_for_segment\<close>

text \<open>\<^verbatim>\<open>mid_time = (start + end) / 2\<close>, in floating point.\<close>

definition mid_time :: "rat \<Rightarrow> rat \<Rightarrow> float_val" where
  "mid_time start endt = float_half (float_add start endt)"

text \<open>The \<^verbatim>\<open>for\<close> loop over the turns, returning at the first turn that contains the midpoint.\<close>

fun scan_turns :: "turn list \<Rightarrow> float_val \<Rightarrow> string" where
  "scan_turns [] m = ''Unknown''"
| "scan_turns (t # ts) m =
     (if float_le (Fin (turn_start t)) m \<and> float_le m (Fin (turn_end t)) then speaker t
      else scan_turns ts m)"

definition get_speaker_for_segment :: "turn list option \<Rightarrow> rat \<Rightarrow> rat \<Rightarrow> string" where
  "get_speaker_for_segment diarization start endt =
     (let m = mid_time start endt
      in case diarization of None \<Rightarrow> ''Unknown''
         | Some turns \<Rightarrow> scan_turns turns m)"

subsection \<open>index, step 5: building the WebVTT lines\<close>

text \<open>The local variables the loop over the segments updates.\<close>

record build_state =
  vtt_lines :: "string list"
  placeholder_map :: "(string \<times> string) list"
  counter :: int

definition segment_step :: "turn list option \<Rightarrow> build_state \<Rightarrow> segment \<Rightarrow> py_error + build_state" where
  "segment_step diarization st seg =
     (let start_ts = format_timestamp (seg_start seg);
          end_ts = format_timestamp (seg_end seg);
          text = strip (seg_text seg);
          orig_speaker = get_speaker_for_segment diarization (seg_start seg) (seg_end seg);
          st1 = (if \<not> dict_mem (placeholder_map st) orig_speaker
                 then st\<lparr>placeholder_map :=
                            dict_set (placeholder_map st) orig_speaker
                              (''SPEAKER_'' @ fmt_02d (counter st)),
                          counter := counter st + 1\<rparr>
                 else st)
      in case dict_get (placeholder_map st1) orig_speaker of
           Inl e \<Rightarrow> Inl e
         | Inr placeholder \<Rightarrow>
             Inr (st1\<lparr>vtt_lines := vtt_lines st1 @
                    [start_ts @ '' --> '' @ end_ts,
                     ''['' @ placeholder @ ''] '' @ text,
                     '''']\<rparr>))"

fun segment_loop :: "turn list option \<Rightarrow> build_state \<Rightarrow> segment list \<Rightarrow> py_error + build_state" where
  "segment_loop diarization st [] = Inr st"
| "segment_loop diarization st (seg # segs) =
     (case segment_step diarization st seg of
        Inl e \<Rightarrow> Inl e
      | Inr st' \<Rightarrow> segment_loop diarization st' segs)"

definition initial_state :: build_state where
  "initial_state = \<lparr>vtt_lines = [''WEBVTT'', ''''], placeholder_map = [], counter = 1\<rparr>"

definition build_vtt :: "turn list option \<Rightarrow> segment list \<Rightarrow> py_error + build_state" where
  "build_vtt diarization segments = segment_loop diarization initial_state segments"

definition vtt_content :: "build_state \<Rightarrow> string" where
  "vtt_content st = join ''\<newline>'' (vtt_lines st)"

subsection \<open>index, the sorted placeholder list for the edit page\<close>

definition placeholder_key :: "string \<Rightarrow> py_error + int" where
  "placeholder_key x =
     (case split_char (CHR ''_'') x of
        _ # b # _ \<Rightarrow> py_int b
      | _ \<Rightarrow> Inl (IndexError ''list index out of range''))"

fun keyed :: "string list \<Rightarrow> py_error + (int \<times> string) list" where
  "keyed [] = Inr []"
| "keyed (x # xs) =
     (case placeholder_key x of
        Inl e \<Rightarrow> Inl e
      | Inr k \<Rightarrow> (case keyed xs of Inl e \<Rightarrow> Inl e | Inr ks \<Rightarrow> Inr ((k, x) # ks)))"

definition sorted_placeholders :: "string list \<Rightarrow> py_error + string list" where
  "sorted_placeholders xs =
     (case keyed xs of Inl e \<Rightarrow> Inl e | Inr ks \<Rightarrow> Inr (map snd (sort_key fst ks)))"

subsection \<open>index\<close>

text \<open>
  The request as the handler reads it: the method, and the filename of the \<^verbatim>\<open>video\<close>
  part of \<^verbatim>\<open>request.files\<close> when there is one.
\<close>

record request =
  req_method :: string
  video_part :: "string option"

text \<open>
  What the environment and the collaborators answer during one request: the path the
  upload is saved under, whether \<^verbatim>\<open>ffmpeg\<close> exits with status 0, the value of
  \<^verbatim>\<open>os.getenv("HUGGINGFACE_TOKEN")\<close>, the diarization (\<open>None\<close> when loading or running
  the pipeline raises), Whisper's \<^verbatim>\<open>text\<close> and \<^verbatim>\<open>segments\<close>, and the fresh job id.
\<close>

record collaborators =
  video_filename :: string
  ffmpeg_ok :: bool
  huggingface_token :: "string option"
  diarization_result :: "turn list option"
  transcript_text :: string
  segments :: "segment list"
  new_uid :: string

definition index ::
  "(string \<rightharpoonup> job) \<Rightarrow> request \<Rightarrow> collaborators \<Rightarrow> py_error + response \<times> (string \<rightharpoonup> job)" where
  "index generated_files req env =
     (if req_method req = ''POST'' then
        (case video_part req of
           None \<Rightarrow> Inr (RenderIndex (Some ''No file part in the request.''), generated_files)
         | Some filename \<Rightarrow>
             if filename = '''' then
               Inr (RenderIndex (Some ''No file selected.''), generated_files)
             else if \<not> ffmpeg_ok env then
               Inr (RenderIndex
                     (Some ''Error processing the video file. Please ensure it is a valid video.''),
                    generated_files)
             else if huggingface_token env = None \<or> huggingface_token env = Some '''' then
               Inl (ValueError ''Hugging Face token not found!'')
             else
               (case build_vtt (diarization_result env) (segments env) of
                  Inl e \<Rightarrow> Inl e
                | Inr st \<Rightarrow>
                    let files = generated_files(new_uid env \<mapsto>
                          \<lparr>vtt = vtt_content st,
                           transcript = transcript_text env,
                           video_path = video_filename env,
                           job_placeholder_map = placeholder_map st\<rparr>)
                    in (case sorted_placeholders (map snd (placeholder_map st)) of
                          Inl e \<Rightarrow> Inl e
                        | Inr placeholders \<Rightarrow>
                            Inr (RenderEdit (new_uid env) placeholders, files))))
      else Inr (RenderIndex None, generated_files))"

subsection \<open>video\<close>

definition video :: "(string \<rightharpoonup> job) \<Rightarrow> string \<Rightarrow> response" where
  "video generated_files uid =
     (case generated_files uid of
        None \<Rightarrow> NotFound ''Video not found''
      | Some j \<Rightarrow> SendPath (video_path j))"

subsection \<open>download\<close>

text \<open>\<^verbatim>\<open>generated_files[uid][file_type]\<close>, with \<open>None\<close> when the key is not in the dict.\<close>

definition job_lookup :: "job \<Rightarrow> string \<Rightarrow> job_value option" where
  "job_lookup j k =
     (if k = ''vtt'' then Some (StrVal (vtt j))
      else if k = ''transcript'' then Some (StrVal (transcript j))
      else if k = ''video_path'' then Some (StrVal (video_path j))
      else if k = ''placeholder_map'' then Some (DictVal (job_placeholder_map j))
      else None)"

text \<open>
  \<open>file_type\<close> is \<^verbatim>\<open>request.args.get("type")\<close>, \<open>None\<close> when the query has no such
  argument. \<^verbatim>\<open>content.encode\<close> exists on strings only.
\<close>

definition download :: "(string \<rightharpoonup> job) \<Rightarrow> string \<Rightarrow> string option \<Rightarrow> py_error + response" where
  "download generated_files uid file_type =
     (case generated_files uid of
        None \<Rightarrow> Inr (NotFound ''Requested file not found.'')
      | Some j \<Rightarrow>
          (case file_type of
             None \<Rightarrow> Inr (NotFound ''Requested file not found.'')
           | Some ft \<Rightarrow>
               (case job_lookup j ft of
                  None \<Rightarrow> Inr (NotFound ''Requested file not found.'')
                | Some content \<Rightarrow>
                    let (filename, mimetype) =
                          (if ft = ''vtt'' then (''subtitles.vtt'', ''text/vtt'')
                           else if ft = ''transcript'' then (''transcript.txt'', ''text/plain'')
                           else (''file.txt'', ''text/plain''))
                    in (case content of
                          StrVal s \<Rightarrow> Inr (SendFile s filename mimetype)
                        | DictVal d \<Rightarrow>
                            Inl (AttributeError ''dict object has no attribute encode'')))))"

subsection \<open>update_speakers\<close>

text \<open>
  The form is the list of the submitted fields in the order of the request body;
  \<^verbatim>\<open>request.form.items()\<close> yields every key once, at its first position and with its
  first value.
\<close>

definition form_items :: "(string \<times> string) list \<Rightarrow> (string \<times> string) list" where
  "form_items form =
     foldl (\<lambda>acc (key, val). if dict_mem acc key then acc else acc @ [(key, val)]) [] form"

definition new_mapping :: "(string \<times> string) list \<Rightarrow> (string \<times> string) list" where
  "new_mapping form =
     foldl (\<lambda>m (key, val). dict_set m key (if strip val \<noteq> '''' then strip val else key))
       [] (form_items form)"

definition apply_mapping :: "(string \<times> string) list \<Rightarrow> string \<Rightarrow> string" where
  "apply_mapping m track =
     foldl (\<lambda>updated_vtt (placeholder, new_name).
              replace (''['' @ placeholder @ '']'') (''['' @ new_name @ '']'') updated_vtt)
       track m"

definition update_speakers ::
  "(string \<rightharpoonup> job) \<Rightarrow> string \<Rightarrow> (string \<times> string) list \<Rightarrow> response \<times> (string \<rightharpoonup> job)" where
  "update_speakers generated_files uid form =
     (case generated_files uid of
        None \<Rightarrow> (NotFound ''Job not found'', generated_files)
      | Some j \<Rightarrow>
          (RenderFinal uid,
           generated_files(uid \<mapsto> j\<lparr>vtt := apply_mapping (new_mapping form) (vtt j)\<rparr>)))"

section \<open>Notions used in the statements and proofs\<close>

text \<open>The speaker key the loop attributes to a segment.\<close>

definition speaker_of :: "turn list option \<Rightarrow> segment \<Rightarrow> string" where
  "speaker_of diarization seg =
     get_speaker_for_segment diarization (seg_start seg) (seg_end seg)"

text \<open>The distinct elements of a list, in the order of their first occurrence.\<close>

fun first_seen :: "'a list \<Rightarrow> 'a list" where
  "first_seen [] = []"
| "first_seen (x # xs) = x # removeAll x (first_seen xs)"

text \<open>The placeholder with the number \<open>n\<close>, and the entry of a key in a placeholder mapping.\<close>

definition label :: "int \<Rightarrow> string" where
  "label n = ''SPEAKER_'' @ fmt_02d n"

definition placeholder_of :: "(string \<times> string) list \<Rightarrow> string \<Rightarrow> string" where
  "placeholder_of m k = (case map_of m k of None \<Rightarrow> [] | Some p \<Rightarrow> p)"

text \<open>The three lines one iteration appends for a segment whose placeholder is \<open>p\<close>.\<close>

definition cue_lines :: "string \<Rightarrow> segment \<Rightarrow> string list" where
  "cue_lines p seg =
     [format_timestamp (seg_start seg) @ '' --> '' @ format_timestamp (seg_end seg),
      ''['' @ p @ ''] '' @ strip (seg_text seg),
      '''']"

text \<open>
  The state after one iteration, as a total function; \<open>segment_step\<close> returns exactly this
  state (lemma \<open>segment_step_eq\<close> below), so that the loop is a left fold of it.
\<close>

definition next_state :: "turn list option \<Rightarrow> build_state \<Rightarrow> segment \<Rightarrow> build_state" where
  "next_state d st seg =
     (let k = speaker_of d seg;
          pm = (if dict_mem (placeholder_map st) k then placeholder_map st
                else placeholder_map st @ [(k, label (counter st))])
      in \<lparr>vtt_lines = vtt_lines st @ cue_lines (placeholder_of pm k) seg,
          placeholder_map = pm,
          counter = (if dict_mem (placeholder_map st) k then counter st else counter st + 1)\<rparr>)"

text \<open>
  A concrete job with one hundred speakers: the turn and the segment number \<open>i\<close> both
  span the seconds from \<open>i\<close> to \<open>i + 1\<close>, and the speaker of turn \<open>i\<close> is the numeral of \<open>i\<close>.
\<close>

definition hundred_turns :: "turn list" where
  "hundred_turns =
     map (\<lambda>i. \<lparr>turn_start = of_int i, turn_end = of_int i + 1, speaker = dec i\<rparr>) [0..99]"

definition hundred_segments :: "segment list" where
  "hundred_segments =
     map (\<lambda>i. \<lparr>seg_start = of_int i, seg_end = of_int i + 1, seg_text = ''hi''\<rparr>) [0..99]"

text \<open>A name without square brackets, and the name a form field stands for.\<close>

definition no_bracket :: "string \<Rightarrow> bool" where
  "no_bracket s = (CHR ''['' \<notin> set s \<and> CHR '']'' \<notin> set s)"

definition effective_name :: "string \<Rightarrow> string \<Rightarrow> string" where
  "effective_name key val = (if strip val \<noteq> '''' then strip val else key)"

text \<open>
  Written from the words of the specification of the rename (not from the source): the
  pairs are applied in placeholder-numeric order, each replacing the bracketed placeholder
  by the bracketed new name, a blank new name keeping the placeholder.
\<close>

definition placeholder_number :: "string \<Rightarrow> int" where
  "placeholder_number p = (case placeholder_key p of Inl e \<Rightarrow> 0 | Inr n \<Rightarrow> n)"

definition rename_in_numeric_order :: "(string \<times> string) list \<Rightarrow> string \<Rightarrow> string" where
  "rename_in_numeric_order pairs track =
     foldl (\<lambda>t (placeholder, new_name).
              replace (''['' @ placeholder @ '']'')
                (''['' @ (if strip new_name = '''' then placeholder else new_name) @ '']'') t)
       track (sort_key (\<lambda>(placeholder, new_name). placeholder_number placeholder) pairs)"

section \<open>Dictionaries\<close>

lemma dict_set_absent: "\<not> dict_mem d k \<Longrightarrow> dict_set d k v = d @ [(k, v)]"
  by (induction d) (auto simp: dict_mem_def)

section \<open>Rounding to a double\<close>

lemma pow2_0: "pow2 0 = 1"
  by (subst pow2.simps) simp

lemma pow2_Suc: "pow2 (n + 1) = 2 * pow2 n"
proof (cases "n < 0")
  case True
  then have "pow2 n = pow2 (n + 1) / 2"
    by (subst pow2.simps) simp
  then show ?thesis by simp
next
  case False
  then show ?thesis
    by (subst pow2.simps) simp
qed

lemma pow2_nat: "pow2 (int k) = 2 ^ k"
proof (induction k)
  case 0
  show ?case by (simp add: pow2_0)
next
  case (Suc k)
  then show ?case
    using pow2_Suc [of "int k"] by (simp add: add.commute)
qed

lemma pow2_neg_nat: "pow2 (- int k) = 1 / 2 ^ k"
proof (induction k)
  case 0
  show ?case by (simp add: pow2_0)
next
  case (Suc k)
  have "pow2 (- int (Suc k) + 1) = 2 * pow2 (- int (Suc k))"
    by (rule pow2_Suc)
  then have "pow2 (- int k) = 2 * pow2 (- int (Suc k))"
    by simp
  with Suc show ?case by simp
qed

lemma pow2_pos: "0 < pow2 n"
proof (cases "0 \<le> n")
  case True
  then show ?thesis using pow2_nat [of "nat n"] by simp
next
  case False
  then show ?thesis using pow2_neg_nat [of "nat (- n)"] by simp
qed

lemma pow2_mono: "n \<le> m \<Longrightarrow> pow2 n \<le> pow2 m"
proof -
  assume "n \<le> m"
  then obtain k where m: "m = n + int k"
    by (metis zle_iff_zadd)
  have "pow2 n \<le> pow2 (n + int k)"
  proof (induction k)
    case 0
    show ?case by simp
  next
    case (Suc k)
    have "pow2 (n + int (Suc k)) = 2 * pow2 (n + int k)"
      using pow2_Suc [of "n + int k"] by (simp add: ac_simps)
    with Suc pow2_pos [of "n + int k"] show ?case by simp
  qed
  with m show ?thesis by simp
qed

lemma exponent_up_bounds:
  "1 \<le> a \<Longrightarrow> pow2 (exponent_up a) \<le> a \<and> a < pow2 (exponent_up a + 1)"
proof (induction a rule: exponent_up.induct)
  case (1 a)
  show ?case
  proof (cases "a < 2")
    case True
    then have "exponent_up a = 0" by (subst exponent_up.simps) simp
    with True "1.prems" show ?thesis
      using pow2_Suc [of 0] by (simp add: pow2_0)
  next
    case False
    then have e: "exponent_up a = 1 + exponent_up (a / 2)"
      by (subst exponent_up.simps) simp
    from False have "1 \<le> a / 2" by simp
    from "1.IH" [OF False this]
    have "pow2 (exponent_up (a / 2)) \<le> a / 2" "a / 2 < pow2 (exponent_up (a / 2) + 1)"
      by simp_all
    then show ?thesis
      using pow2_Suc [of "exponent_up (a / 2)"] pow2_Suc [of "exponent_up (a / 2) + 1"]
      by (simp add: e add.commute)
  qed
qed

lemma exponent_down_bounds:
  "0 < a \<Longrightarrow> a < 1 \<Longrightarrow> pow2 (exponent_down a) \<le> a \<and> a < pow2 (exponent_down a + 1)"
proof (induction a rule: exponent_down.induct)
  case (1 a)
  from "1.prems" have rec: "\<not> (a \<le> 0 \<or> 1 \<le> a)" by simp
  then have e: "exponent_down a = exponent_down (a * 2) - 1"
    by (subst exponent_down.simps) simp
  show ?case
  proof (cases "a * 2 < 1")
    case True
    from "1.IH" [OF rec _ True] "1.prems"
    have "pow2 (exponent_down (a * 2)) \<le> a * 2" "a * 2 < pow2 (exponent_down (a * 2) + 1)"
      by simp_all
    then show ?thesis
      using pow2_Suc [of "exponent_down (a * 2) - 1"] pow2_Suc [of "exponent_down (a * 2)"]
      by (simp add: e)
  next
    case False
    then have "exponent_down (a * 2) = 0"
      by (subst exponent_down.simps) simp
    with False "1.prems" show ?thesis
      using pow2_Suc [of "- 1"] by (simp add: e pow2_0)
  qed
qed

lemma exponent_bounds:
  "0 < a \<Longrightarrow> pow2 (exponent a) \<le> a \<and> a < pow2 (exponent a + 1)"
  using exponent_up_bounds [of a] exponent_down_bounds [of a]
  by (cases "1 \<le> a") (simp_all add: exponent_def)

lemma round_half_even_int: "round_half_even (of_int n) = n"
  by (simp add: round_half_even_def)

text \<open>
  A positive number below \<open>2 ^ 52\<close> that is an integer or an integer and a half is a
  double: rounding leaves it as it is.
\<close>

lemma round_double_half_integer:
  assumes "0 < k" and "k < 2 ^ 52"
  shows "round_double (of_int k / 2) = Fin (of_int k / 2)"
proof -
  let ?a = "rat_of_int k / 2"
  let ?e = "exponent ?a"
  have a: "0 < ?a" using assms(1) by simp
  note b = exponent_bounds [OF a]
  have "?a < pow2 52"
    using assms(2) pow2_nat [of 52] of_int_less_iff [of k "2 ^ 52", where ?'a = rat] by simp
  with b have "pow2 ?e < pow2 52" by simp
  then have hi: "?e < 52"
    using pow2_mono [of 52 ?e] by (cases "?e < 52") auto
  have "pow2 (- 1) \<le> ?a"
    using assms(1) pow2_neg_nat [of 1] of_int_le_iff [of 1 k, where ?'a = rat] by simp
  with b have "pow2 (- 1) < pow2 (?e + 1)" by simp
  then have lo: "- 1 \<le> ?e"
    using pow2_mono [of "?e + 1" "- 1"] by (cases "- 1 \<le> ?e") auto
  define j where "j = nat (51 - ?e)"
  from hi lo have e: "?e - 52 = - int (Suc j)"
    by (simp add: j_def)
  have ulp: "pow2 (?e - 52) = 1 / 2 ^ Suc j"
    unfolding e by (rule pow2_neg_nat)
  have "?a / pow2 (?e - 52) = of_int (k * 2 ^ j)"
    by (simp add: ulp)
  then have m: "round_half_even (?a / pow2 (?e - 52)) = k * 2 ^ j"
    by (simp only: round_half_even_int)
  have again: "of_int (k * 2 ^ j) * pow2 (?e - 52) = ?a"
    by (simp add: ulp)
  have mx: "max ?e (- 1022) = ?e" using lo by simp
  have nz: "?a \<noteq> 0" "\<not> ?a < 0" "\<bar>?a\<bar> = ?a" using a by simp_all
  have no: "\<not> (1024 \<le> ?e \<or> (?e = 1023 \<and> 9007199254740992 \<le> k * 2 ^ j))"
    using hi by simp
  show ?thesis
    unfolding round_double_def Let_def nz mx m again
    using nz(1,2) no by simp
qed

lemma mid_time_unit_segment:
  assumes "0 \<le> i" and "i < 2 ^ 50"
  shows "mid_time (of_int i) (of_int i + 1) = Fin (of_int i + 1 / 2)"
proof -
  have two: "rat_of_int (2 * (2 * i + 1)) / 2 = 2 * of_int i + 1"
    by simp
  have "round_double (of_int (2 * (2 * i + 1)) / 2) = Fin (of_int (2 * (2 * i + 1)) / 2)"
    using assms by (intro round_double_half_integer) simp_all
  then have s: "round_double (2 * of_int i + 1) = Fin (2 * of_int i + 1)"
    unfolding two .
  have half: "rat_of_int (2 * i + 1) / 2 = of_int i + 1 / 2"
    by (simp add: add_divide_distrib)
  have "round_double (of_int (2 * i + 1) / 2) = Fin (of_int (2 * i + 1) / 2)"
    using assms by (intro round_double_half_integer) simp_all
  then have fixed: "round_double (of_int i + 1 / 2) = Fin (of_int i + 1 / 2)"
    unfolding half .
  have same: "(2 * rat_of_int i + 1) / 2 = of_int i + 1 / 2"
    by (simp add: add_divide_distrib)
  have h: "round_double ((2 * of_int i + 1) / 2) = Fin (of_int i + 1 / 2)"
    unfolding same by (rule fixed)
  show ?thesis
    by (simp add: mid_time_def float_add_def float_half_def s h)
qed

section \<open>The speaker of a segment\<close>

lemma scan_turns_find:
  "scan_turns turns m =
     (case find (\<lambda>t. float_le (Fin (turn_start t)) m \<and> float_le m (Fin (turn_end t))) turns of
        None \<Rightarrow> ''Unknown'' | Some t \<Rightarrow> speaker t)"
  by (induction turns) simp_all

lemma get_speaker_none: "get_speaker_for_segment None start endt = ''Unknown''"
  by (simp add: get_speaker_for_segment_def)

lemma get_speaker_no_turn:
  assumes "\<forall>t \<in> set turns. \<not> (float_le (Fin (turn_start t)) (mid_time start endt)
                                 \<and> float_le (mid_time start endt) (Fin (turn_end t)))"
  shows "get_speaker_for_segment (Some turns) start endt = ''Unknown''"
proof -
  have "find (\<lambda>t. float_le (Fin (turn_start t)) (mid_time start endt)
                   \<and> float_le (mid_time start endt) (Fin (turn_end t))) turns = None"
    using assms by (simp add: find_None_iff)
  then show ?thesis
    by (simp add: get_speaker_for_segment_def scan_turns_find)
qed

lemma get_speaker_first_turn:
  assumes "i < length turns"
    and "float_le (Fin (turn_start (turns ! i))) (mid_time start endt)
         \<and> float_le (mid_time start endt) (Fin (turn_end (turns ! i)))"
    and "\<forall>j < i. \<not> (float_le (Fin (turn_start (turns ! j))) (mid_time start endt)
                         \<and> float_le (mid_time start endt) (Fin (turn_end (turns ! j))))"
  shows "get_speaker_for_segment (Some turns) start endt = speaker (turns ! i)"
proof -
  have "find (\<lambda>t. float_le (Fin (turn_start t)) (mid_time start endt)
                   \<and> float_le (mid_time start endt) (Fin (turn_end t))) turns
          = Some (turns ! i)"
    using assms by (subst find_Some_iff) blast
  then show ?thesis
    by (simp add: get_speaker_for_segment_def scan_turns_find)
qed

lemma mid_time_exact:
  assumes "round_double (start + endt) = Fin (start + endt)"
    and "round_double ((start + endt) / 2) = Fin ((start + endt) / 2)"
  shows "mid_time start endt = Fin ((start + endt) / 2)"
  using assms by (simp add: mid_time_def float_add_def float_half_def)

text \<open>
  Claim C4. Let \<open>mid\<close> be \<open>(start + end) / 2\<close> as the program computes it, in floating
  point (it is the exact midpoint whenever the sum and its half are doubles). Without a
  diarization the resolver returns the sentinel \<open>Unknown\<close>; when no turn has
  \<open>turn.start \<le> mid \<le> turn.end\<close> it returns \<open>Unknown\<close>; and when the turn at position \<open>i\<close>
  of the enumeration contains \<open>mid\<close>, both ends included, and no earlier turn does, it
  returns the speaker of that turn. A midpoint equal to \<open>turn.end\<close> satisfies the condition,
  so it is attributed to that turn.
\<close>

theorem get_speaker_first_containing_turn:
  "get_speaker_for_segment None start endt = ''Unknown''
   \<and> ((\<forall>t \<in> set turns. \<not> (float_le (Fin (turn_start t)) (mid_time start endt)
                            \<and> float_le (mid_time start endt) (Fin (turn_end t))))
        \<longrightarrow> get_speaker_for_segment (Some turns) start endt = ''Unknown'')
   \<and> (i < length turns
        \<and> float_le (Fin (turn_start (turns ! i))) (mid_time start endt)
        \<and> float_le (mid_time start endt) (Fin (turn_end (turns ! i)))
        \<and> (\<forall>j < i. \<not> (float_le (Fin (turn_start (turns ! j))) (mid_time start endt)
                         \<and> float_le (mid_time start endt) (Fin (turn_end (turns ! j)))))
        \<longrightarrow> get_speaker_for_segment (Some turns) start endt = speaker (turns ! i))
   \<and> (round_double (start + endt) = Fin (start + endt)
        \<and> round_double ((start + endt) / 2) = Fin ((start + endt) / 2)
        \<longrightarrow> mid_time start endt = Fin ((start + endt) / 2))"
  using get_speaker_none [of start endt] get_speaker_no_turn [of turns start endt]
        get_speaker_first_turn [of i turns start endt] mid_time_exact [of start endt]
  by blast

text \<open>
  The segment from 0 to 2 has the midpoint 1, the end of the first turn and the start of
  the second: the first turn wins. The segment from 2 to 4 has the midpoint 3, outside the
  only turn. The segment from 0.1 to 0.2 (the doubles nearest to these decimals) has the
  computed midpoint 0.15000000000000002, where the sum was rounded up; a turn that starts
  at this double contains it.
\<close>

theorem get_speaker_first_containing_turn_witness:
  "get_speaker_for_segment (Some [\<lparr>turn_start = 0, turn_end = 1, speaker = ''A''\<rparr>,
                                  \<lparr>turn_start = 1, turn_end = 3, speaker = ''B''\<rparr>]) 0 2 = ''A''
   \<and> get_speaker_for_segment (Some [\<lparr>turn_start = 0, turn_end = 1, speaker = ''A''\<rparr>]) 2 4 = ''Unknown''
   \<and> get_speaker_for_segment
        (Some [\<lparr>turn_start = 1351079888211149 / 9007199254740992, turn_end = 1, speaker = ''S''\<rparr>])
        (3602879701896397 / 36028797018963968) (3602879701896397 / 18014398509481984) = ''S''
   \<and> mid_time 0 2 = Fin 1"
proof -
  have m: "mid_time 0 2 = Fin 1" "mid_time 2 4 = Fin 3"
    "mid_time (3602879701896397 / 36028797018963968) (3602879701896397 / 18014398509481984)
       = Fin (1351079888211149 / 9007199254740992)"
    by code_simp+
  have r: "round_double (0 + 2) = Fin (0 + 2)" "round_double ((0 + 2) / 2) = Fin ((0 + 2) / 2)"
    by code_simp+
  show ?thesis
    using get_speaker_first_containing_turn
            [of 0 2 "[\<lparr>turn_start = 0, turn_end = 1, speaker = ''A''\<rparr>,
                      \<lparr>turn_start = 1, turn_end = 3, speaker = ''B''\<rparr>]" 0]
          get_speaker_first_containing_turn
            [of 2 4 "[\<lparr>turn_start = 0, turn_end = 1, speaker = ''A''\<rparr>]" 0]
          get_speaker_first_containing_turn
            [of "3602879701896397 / 36028797018963968" "3602879701896397 / 18014398509481984"
                "[\<lparr>turn_start = 1351079888211149 / 9007199254740992, turn_end = 1, speaker = ''S''\<rparr>]" 0]
          r
    by (simp add: m)
qed

section \<open>Timestamps\<close>

lemma format_timestamp_zero: "format_timestamp 0 = ''00:00:00.000''"
  by code_simp

lemma format_timestamp_two: "format_timestamp 2 = ''00:00:02.000''"
  by code_simp

lemma format_timestamp_3661_25: "format_timestamp 3661.25 = ''01:01:01.250''"
  by code_simp

text \<open>
  Claim C5. The seconds field is the remainder modulo 60 rounded to three decimals, and
  the rounding can reach 60: for 59.9996 seconds (as the decimal, and as the double nearest
  to it) the function returns 00:00:60.000, and for 3599.9996 seconds 00:59:60.000, so the
  printed seconds field is not below 60 and the minute is not carried.
\<close>

theorem format_timestamp_rounds_up_to_60:
  "format_timestamp 59.9996 = ''00:00:60.000''
   \<and> format_timestamp (4222096503162169 / 70368744177664) = ''00:00:60.000''
   \<and> format_timestamp 3599.9996 = ''00:59:60.000''"
  by code_simp

section \<open>Unknown jobs and artifact kinds\<close>

lemma job_lookup_other:
  "ft \<noteq> ''vtt'' \<Longrightarrow> ft \<noteq> ''transcript'' \<Longrightarrow> ft \<noteq> ''video_path'' \<Longrightarrow> ft \<noteq> ''placeholder_map''
   \<Longrightarrow> job_lookup j ft = None"
  by (simp add: job_lookup_def)

lemma download_unknown_job:
  "generated_files uid = None \<Longrightarrow> download generated_files uid file_type = Inr (NotFound ''Requested file not found.'')"
  by (simp add: download_def)

lemma update_speakers_unknown_job:
  "generated_files uid = None \<Longrightarrow> update_speakers generated_files uid form = (NotFound ''Job not found'', generated_files)"
  by (simp add: update_speakers_def)

lemma download_unknown_kind:
  assumes "generated_files uid = Some j"
    and "file_type \<notin> {Some ''vtt'', Some ''transcript'', Some ''video_path'', Some ''placeholder_map''}"
  shows "download generated_files uid file_type = Inr (NotFound ''Requested file not found.'')"
proof (cases file_type)
  case None
  then show ?thesis using assms(1) by (simp add: download_def)
next
  case (Some ft)
  with assms(2) have "job_lookup j ft = None"
    by (intro job_lookup_other) auto
  with Some assms(1) show ?thesis by (simp add: download_def)
qed

lemma download_video_path:
  "generated_files uid = Some j \<Longrightarrow>
   download generated_files uid (Some ''video_path'') = Inr (SendFile (video_path j) ''file.txt'' ''text/plain'')"
  by (simp add: download_def job_lookup_def)

lemma download_vtt:
  "generated_files uid = Some j \<Longrightarrow>
   download generated_files uid (Some ''vtt'') = Inr (SendFile (vtt j) ''subtitles.vtt'' ''text/vtt'')"
  by (simp add: download_def job_lookup_def)

lemma download_transcript:
  "generated_files uid = Some j \<Longrightarrow>
   download generated_files uid (Some ''transcript'') = Inr (SendFile (transcript j) ''transcript.txt'' ''text/plain'')"
  by (simp add: download_def job_lookup_def)

text \<open>
  Claim C7, as the claim states it, fails: for a stored job the kind \<open>video_path\<close> is neither
  the track nor the transcript, and the download answers with a file, not with not-found.
\<close>

theorem download_video_path_counterexample:
  "download
     (Map.empty(''job-1'' \<mapsto>
        \<lparr>vtt = ''WEBVTT'', transcript = ''hello'', video_path = ''/tmp/u_clip.mp4'',
         job_placeholder_map = [(''Unknown'', ''SPEAKER_01'')]\<rparr>))
     ''job-1'' (Some ''video_path'')
   = Inr (SendFile ''/tmp/u_clip.mp4'' ''file.txt'' ''text/plain'')"
  by (simp add: download_def job_lookup_def)

text \<open>
  Claim C7, amended. For a job id that is not in the store, the download and the rename
  return their not-found responses (and the rename leaves the store as it is). For a stored
  job, the download returns not-found when the kind is missing or is none of the four keys
  of the job entry, \<open>vtt\<close>, \<open>transcript\<close>, \<open>video_path\<close> and \<open>placeholder_map\<close>; the kinds
  \<open>vtt\<close> and \<open>transcript\<close> are served as \<open>subtitles.vtt\<close> and \<open>transcript.txt\<close>, and the
  kind \<open>video_path\<close> is served as \<open>file.txt\<close> holding the stored path.
\<close>

theorem download_not_found_amended:
  "(generated_files uid = None \<longrightarrow>
      download generated_files uid file_type = Inr (NotFound ''Requested file not found.'')
      \<and> update_speakers generated_files uid form = (NotFound ''Job not found'', generated_files))
   \<and> (generated_files uid = Some j \<longrightarrow>
        (file_type \<notin> {Some ''vtt'', Some ''transcript'', Some ''video_path'', Some ''placeholder_map''}
           \<longrightarrow> download generated_files uid file_type = Inr (NotFound ''Requested file not found.''))
        \<and> download generated_files uid (Some ''vtt'') = Inr (SendFile (vtt j) ''subtitles.vtt'' ''text/vtt'')
        \<and> download generated_files uid (Some ''transcript'')
            = Inr (SendFile (transcript j) ''transcript.txt'' ''text/plain'')
        \<and> download generated_files uid (Some ''video_path'')
            = Inr (SendFile (video_path j) ''file.txt'' ''text/plain''))"
  using download_unknown_job [of generated_files uid file_type]
        update_speakers_unknown_job [of generated_files uid form]
        download_unknown_kind [of generated_files uid j file_type]
        download_vtt [of generated_files uid j] download_transcript [of generated_files uid j]
        download_video_path [of generated_files uid j]
  by blast

theorem download_not_found_amended_witness:
  "download Map.empty ''job-2'' (Some ''vtt'') = Inr (NotFound ''Requested file not found.'')
   \<and> update_speakers Map.empty ''job-2'' [(''SPEAKER_01'', ''Alice'')] = (NotFound ''Job not found'', Map.empty)
   \<and> download
        (Map.empty(''job-1'' \<mapsto>
           \<lparr>vtt = ''WEBVTT'', transcript = ''hello'', video_path = ''/tmp/u_clip.mp4'',
            job_placeholder_map = [(''Unknown'', ''SPEAKER_01'')]\<rparr>))
        ''job-1'' (Some ''pdf'')
      = Inr (NotFound ''Requested file not found.'')"
  using download_not_found_amended
          [of Map.empty "''job-2''" "Some ''vtt''" "[(''SPEAKER_01'', ''Alice'')]"]
        download_not_found_amended
          [of "Map.empty(''job-1'' \<mapsto>
                \<lparr>vtt = ''WEBVTT'', transcript = ''hello'', video_path = ''/tmp/u_clip.mp4'',
                 job_placeholder_map = [(''Unknown'', ''SPEAKER_01'')]\<rparr>)"
              "''job-1''" "Some ''pdf''" _
              "\<lparr>vtt = ''WEBVTT'', transcript = ''hello'', video_path = ''/tmp/u_clip.mp4'',
                job_placeholder_map = [(''Unknown'', ''SPEAKER_01'')]\<rparr>"]
  by simp

section \<open>The missing Hugging Face token\<close>

text \<open>
  Claim C9, as the claim states it, fails: a POST request with a file, whose audio
  extraction succeeded, raises the exception inside the handler when the token is not set.
\<close>

theorem index_token_counterexample:
  "index Map.empty \<lparr>req_method = ''POST'', video_part = Some ''clip.mp4''\<rparr>
     \<lparr>video_filename = ''/tmp/u_clip.mp4'', ffmpeg_ok = True, huggingface_token = None,
      diarization_result = None, transcript_text = ''hello'',
      segments = [\<lparr>seg_start = 0, seg_end = 2, seg_text = ''hello''\<rparr>], new_uid = ''job-1''\<rparr>
   = Inl (ValueError ''Hugging Face token not found!'')"
  by (simp add: index_def)

text \<open>
  Claim C9, amended. The token is read and checked inside the upload handler, after the
  file was accepted and the audio extracted: every POST request with a named file whose
  extraction succeeds raises \<open>ValueError\<close> when the token is unset or empty, and no job is
  stored. Requests that are rejected earlier (no file part, empty filename, failed
  extraction) and GET requests are answered without looking at the token.
\<close>

theorem index_token_amended:
  "(req_method req = ''POST'' \<and> video_part req = Some filename \<and> filename \<noteq> '''' \<and> ffmpeg_ok env
     \<and> (huggingface_token env = None \<or> huggingface_token env = Some '''')
     \<longrightarrow> index generated_files req env = Inl (ValueError ''Hugging Face token not found!''))
   \<and> (req_method req \<noteq> ''POST'' \<or> video_part req = None \<or> video_part req = Some '''' \<or> \<not> ffmpeg_ok env
     \<longrightarrow> (\<exists>page. index generated_files req env = Inr (RenderIndex page, generated_files)))"
  by (auto simp: index_def split: option.splits)

theorem index_token_amended_witness:
  "index Map.empty \<lparr>req_method = ''POST'', video_part = Some ''clip.mp4''\<rparr>
     \<lparr>video_filename = ''/tmp/u_clip.mp4'', ffmpeg_ok = True, huggingface_token = Some '''',
      diarization_result = None, transcript_text = '''', segments = [], new_uid = ''job-1''\<rparr>
     = Inl (ValueError ''Hugging Face token not found!'')
   \<and> (\<exists>page. index Map.empty \<lparr>req_method = ''POST'', video_part = None\<rparr>
         \<lparr>video_filename = ''/tmp/u_clip.mp4'', ffmpeg_ok = True, huggingface_token = None,
          diarization_result = None, transcript_text = '''', segments = [], new_uid = ''job-1''\<rparr>
       = Inr (RenderIndex page, Map.empty))"
  using index_token_amended
          [of "\<lparr>req_method = ''POST'', video_part = Some ''clip.mp4''\<rparr>" "''clip.mp4''"
              "\<lparr>video_filename = ''/tmp/u_clip.mp4'', ffmpeg_ok = True, huggingface_token = Some '''',
                diarization_result = None, transcript_text = '''', segments = [], new_uid = ''job-1''\<rparr>"
              Map.empty]
        index_token_amended
          [of "\<lparr>req_method = ''POST'', video_part = None\<rparr>" _
              "\<lparr>video_filename = ''/tmp/u_clip.mp4'', ffmpeg_ok = True, huggingface_token = None,
                diarization_result = None, transcript_text = '''', segments = [], new_uid = ''job-1''\<rparr>"
              Map.empty]
  by simp

section \<open>The loop over the segments\<close>

lemma map_of_dict_set: "map_of (dict_set d k v) k = Some v"
  by (induction d) auto

lemma dict_mem_map_of: "dict_mem d k \<longleftrightarrow> map_of d k \<noteq> None"
  by (induction d) (auto simp: dict_mem_def)

lemma placeholder_of_append:
  "dict_mem m k \<Longrightarrow> placeholder_of (m @ ext) k = placeholder_of m k"
  by (auto simp: placeholder_of_def dict_mem_map_of map_add_def split: option.splits)

lemma segment_step_eq: "segment_step d st seg = Inr (next_state d st seg)"
proof (cases "dict_mem (placeholder_map st) (speaker_of d seg)")
  case True
  then obtain p where p: "map_of (placeholder_map st) (speaker_of d seg) = Some p"
    by (auto simp: dict_mem_map_of)
  with True show ?thesis
    by (cases st)
       (simp add: segment_step_def next_state_def speaker_of_def [symmetric] dict_get_def
          placeholder_of_def cue_lines_def Let_def)
next
  case False
  then have "map_of (placeholder_map st) (speaker_of d seg) = None"
    by (simp add: dict_mem_map_of)
  with False show ?thesis
    by (cases st)
       (simp add: segment_step_def next_state_def speaker_of_def [symmetric] dict_get_def
          placeholder_of_def cue_lines_def Let_def dict_set_absent [symmetric] map_of_dict_set
          label_def)
qed

lemma segment_loop_eq: "segment_loop d st segs = Inr (foldl (next_state d) st segs)"
  by (induction segs arbitrary: st) (simp_all add: segment_step_eq)

lemma placeholder_map_next_state:
  "placeholder_map (next_state d st seg) =
     (if dict_mem (placeholder_map st) (speaker_of d seg) then placeholder_map st
      else placeholder_map st @ [(speaker_of d seg, label (counter st))])"
  by (simp add: next_state_def Let_def)

lemma counter_next_state:
  "counter (next_state d st seg) =
     (if dict_mem (placeholder_map st) (speaker_of d seg) then counter st else counter st + 1)"
  by (simp add: next_state_def Let_def)

lemma vtt_lines_next_state:
  "vtt_lines (next_state d st seg) =
     vtt_lines st @ cue_lines (placeholder_of (placeholder_map (next_state d st seg)) (speaker_of d seg)) seg"
  by (simp add: next_state_def Let_def)

lemma dict_mem_next_state:
  "dict_mem (placeholder_map (next_state d st seg)) (speaker_of d seg)"
  by (simp add: placeholder_map_next_state dict_mem_def)

lemma fold_extends:
  "\<exists>ext. placeholder_map (foldl (next_state d) st segs) = placeholder_map st @ ext"
proof (induction segs arbitrary: st)
  case Nil
  show ?case by simp
next
  case (Cons seg segs)
  obtain ext where "placeholder_map (foldl (next_state d) (next_state d st seg) segs)
      = placeholder_map (next_state d st seg) @ ext"
    using Cons.IH by blast
  then show ?case
    by (simp add: placeholder_map_next_state)
qed

lemma set_first_seen: "set (first_seen xs) = set xs"
  by (induction xs) auto

lemma distinct_first_seen: "distinct (first_seen xs)"
  by (induction xs) (auto simp: distinct_removeAll)

lemma length_first_seen: "length (first_seen xs) = card (set xs)"
  using distinct_card [OF distinct_first_seen [of xs]] by (simp add: set_first_seen)

lemma filter_removeAll_in: "\<not> P k \<Longrightarrow> filter P (removeAll k xs) = filter P xs"
  by (induction xs) auto

lemma filter_removeAll_out: "filter P (removeAll k xs) = filter (\<lambda>x. P x \<and> x \<noteq> k) xs"
  by (induction xs) auto

lemma fold_keys:
  "map fst (placeholder_map (foldl (next_state d) st segs)) =
     map fst (placeholder_map st) @
     filter (\<lambda>k. k \<notin> set (map fst (placeholder_map st))) (first_seen (map (speaker_of d) segs))"
proof (induction segs arbitrary: st)
  case Nil
  show ?case by simp
next
  case (Cons seg segs)
  show ?case
  proof (cases "dict_mem (placeholder_map st) (speaker_of d seg)")
    case True
    then have pm: "placeholder_map (next_state d st seg) = placeholder_map st"
      by (simp add: placeholder_map_next_state)
    from True have "\<not> (speaker_of d seg \<notin> set (map fst (placeholder_map st)))"
      by (simp add: dict_mem_def)
    then show ?thesis
      using Cons.IH [of "next_state d st seg"]
      by (simp add: pm filter_removeAll_in del: set_map)
  next
    case False
    then have pm: "placeholder_map (next_state d st seg)
        = placeholder_map st @ [(speaker_of d seg, label (counter st))]"
      by (simp add: placeholder_map_next_state)
    from False have "speaker_of d seg \<notin> set (map fst (placeholder_map st))"
      by (simp add: dict_mem_def)
    then show ?thesis
      using Cons.IH [of "next_state d st seg"]
      by (simp add: pm filter_removeAll_out del: set_map) (auto intro: filter_cong)
  qed
qed

lemma map_label_upto: "map (\<lambda>i. f (int i + 1)) [0..<n] = map f [1..int n]"
proof (induction n)
  case 0
  show ?case by simp
next
  case (Suc n)
  have "[1..int (Suc n)] = [1..int n] @ [int n + 1]"
    using upto_rec2 [of 1 "int n + 1"] by (simp add: add.commute)
  with Suc show ?case by simp
qed

lemma fold_labels:
  assumes "counter st = 1 + int (length (placeholder_map st))"
    and "map snd (placeholder_map st) = map label [1..int (length (placeholder_map st))]"
  shows "counter (foldl (next_state d) st segs)
           = 1 + int (length (placeholder_map (foldl (next_state d) st segs)))
         \<and> map snd (placeholder_map (foldl (next_state d) st segs))
           = map label [1..int (length (placeholder_map (foldl (next_state d) st segs)))]"
  using assms
proof (induction segs arbitrary: st)
  case Nil
  then show ?case by simp
next
  case (Cons seg segs)
  have "counter (next_state d st seg) = 1 + int (length (placeholder_map (next_state d st seg)))"
    using Cons.prems(1) by (simp add: counter_next_state placeholder_map_next_state)
  moreover have "map snd (placeholder_map (next_state d st seg))
      = map label [1..int (length (placeholder_map (next_state d st seg)))]"
  proof (cases "dict_mem (placeholder_map st) (speaker_of d seg)")
    case True
    then show ?thesis using Cons.prems(2) by (simp add: placeholder_map_next_state)
  next
    case False
    have "[1..int (length (placeholder_map st)) + 1]
        = [1..int (length (placeholder_map st))] @ [int (length (placeholder_map st)) + 1]"
      using upto_rec2 [of 1 "int (length (placeholder_map st)) + 1"] by simp
    with False show ?thesis
      using Cons.prems by (simp add: placeholder_map_next_state add.commute)
  qed
  ultimately show ?case
    using Cons.IH [of "next_state d st seg"] by simp
qed

lemma fold_lines:
  "vtt_lines (foldl (next_state d) st segs) =
     vtt_lines st @
     concat (map (\<lambda>seg. cue_lines
                    (placeholder_of (placeholder_map (foldl (next_state d) st segs)) (speaker_of d seg))
                    seg) segs)"
proof (induction segs arbitrary: st)
  case Nil
  show ?case by simp
next
  case (Cons seg segs)
  obtain ext where ext: "placeholder_map (foldl (next_state d) (next_state d st seg) segs)
      = placeholder_map (next_state d st seg) @ ext"
    using fold_extends by blast
  have "placeholder_of (placeholder_map (foldl (next_state d) (next_state d st seg) segs)) (speaker_of d seg)
      = placeholder_of (placeholder_map (next_state d st seg)) (speaker_of d seg)"
    unfolding ext by (rule placeholder_of_append) (rule dict_mem_next_state)
  then show ?case
    using Cons.IH [of "next_state d st seg"] vtt_lines_next_state [of d st seg] by simp
qed

section \<open>The result of the loop\<close>

lemma build_vtt_eq: "build_vtt d segs = Inr (foldl (next_state d) initial_state segs)"
  by (simp add: build_vtt_def segment_loop_eq)

lemma build_vtt_keys:
  "map fst (placeholder_map (foldl (next_state d) initial_state segs))
     = first_seen (map (speaker_of d) segs)"
  using fold_keys [of d initial_state segs] by (simp add: initial_state_def)

lemma build_vtt_labels:
  "map snd (placeholder_map (foldl (next_state d) initial_state segs))
     = map label [1..int (card (set (map (speaker_of d) segs)))]"
proof -
  have "length (placeholder_map (foldl (next_state d) initial_state segs))
      = card (set (map (speaker_of d) segs))"
    using arg_cong [OF build_vtt_keys [of d segs], of length] by (simp add: length_first_seen)
  then show ?thesis
    using fold_labels [of initial_state d segs] by (simp add: initial_state_def)
qed

section \<open>The placeholder mapping\<close>

lemma label_1: "label 1 = ''SPEAKER_01''"
  by code_simp

lemma map_of_zip_hd:
  "m \<noteq> [] \<Longrightarrow> map_of m (hd (map fst m)) = Some (hd (map snd m))"
  by (cases m) auto

text \<open>
  Claim C2. After the loop the keys of the placeholder mapping are the distinct speaker
  keys of the segments in the order of their first occurrence, and their placeholders are
  the labels with the numbers 1 to k in that order, k the number of distinct keys; the
  speaker of the first segment has SPEAKER_01; and the mapping after any initial part of
  the segments is an initial part of the final mapping, so that no entry is changed or
  removed once it is assigned and a key that is already mapped gets no new entry.
\<close>

theorem placeholder_map_dense:
  "\<exists>st. build_vtt d segs = Inr st
     \<and> map fst (placeholder_map st) = first_seen (map (speaker_of d) segs)
     \<and> map snd (placeholder_map st)
         = map (\<lambda>n. ''SPEAKER_'' @ fmt_02d n) [1..int (card (set (map (speaker_of d) segs)))]
     \<and> (segs \<noteq> [] \<longrightarrow> dict_get (placeholder_map st) (speaker_of d (hd segs)) = Inr ''SPEAKER_01'')
     \<and> (\<forall>n \<le> length segs. \<exists>st'. build_vtt d (take n segs) = Inr st'
            \<and> prefix (placeholder_map st') (placeholder_map st))"
proof -
  let ?st = "foldl (next_state d) initial_state segs"
  have labels: "map snd (placeholder_map ?st)
      = map (\<lambda>n. ''SPEAKER_'' @ fmt_02d n) [1..int (card (set (map (speaker_of d) segs)))]"
    using build_vtt_labels [of d segs] by (simp add: label_def [abs_def])
  have first: "dict_get (placeholder_map ?st) (speaker_of d (hd segs)) = Inr ''SPEAKER_01''"
    if "segs \<noteq> []"
  proof -
    from that obtain seg rest where segs: "segs = seg # rest"
      by (cases segs) auto
    have ne: "placeholder_map ?st \<noteq> []"
      using build_vtt_keys [of d segs] segs by auto
    have "0 < card (set (map (speaker_of d) segs))"
      using segs by (simp add: card_gt_0_iff)
    then have "[1..int (card (set (map (speaker_of d) segs)))]
        = 1 # [2..int (card (set (map (speaker_of d) segs)))]"
      by (subst upto_rec1) simp_all
    then have "hd (map snd (placeholder_map ?st)) = label 1"
      using build_vtt_labels [of d segs] by simp
    moreover have "hd (map fst (placeholder_map ?st)) = speaker_of d seg"
      using build_vtt_keys [of d segs] segs by simp
    ultimately show ?thesis
      using map_of_zip_hd [OF ne] segs by (simp add: dict_get_def label_1)
  qed
  have stable: "\<exists>st'. build_vtt d (take n segs) = Inr st'
      \<and> prefix (placeholder_map st') (placeholder_map ?st)" for n
  proof -
    have "?st = foldl (next_state d) (foldl (next_state d) initial_state (take n segs)) (drop n segs)"
      using foldl_append [of "next_state d" initial_state "take n segs" "drop n segs"] by simp
    then have "prefix (placeholder_map (foldl (next_state d) initial_state (take n segs)))
        (placeholder_map ?st)"
      using fold_extends [of d "foldl (next_state d) initial_state (take n segs)" "drop n segs"]
      by (auto simp: prefix_def)
    then show ?thesis
      using build_vtt_eq [of d "take n segs"] by blast
  qed
  show ?thesis
    using build_vtt_eq [of d segs] build_vtt_keys [of d segs] labels first stable by blast
qed

text \<open>
  Scenario B: three segments attributed to the keys A, B and A. The mapping is
  A to SPEAKER_01 and B to SPEAKER_02, and the third cue carries SPEAKER_01 again.
\<close>

theorem placeholder_map_dense_witness:
  "build_vtt
     (Some [\<lparr>turn_start = 0, turn_end = 2, speaker = ''A''\<rparr>,
            \<lparr>turn_start = 2, turn_end = 4, speaker = ''B''\<rparr>,
            \<lparr>turn_start = 4, turn_end = 6, speaker = ''A''\<rparr>])
     [\<lparr>seg_start = 0, seg_end = 2, seg_text = ''one''\<rparr>,
      \<lparr>seg_start = 2, seg_end = 4, seg_text = ''two''\<rparr>,
      \<lparr>seg_start = 4, seg_end = 6, seg_text = ''three''\<rparr>]
   = Inr \<lparr>vtt_lines = [''WEBVTT'', '''',
            ''00:00:00.000 --> 00:00:02.000'', ''[SPEAKER_01] one'', '''',
            ''00:00:02.000 --> 00:00:04.000'', ''[SPEAKER_02] two'', '''',
            ''00:00:04.000 --> 00:00:06.000'', ''[SPEAKER_01] three'', ''''],
          placeholder_map = [(''A'', ''SPEAKER_01''), (''B'', ''SPEAKER_02'')],
          counter = 3\<rparr>
   \<and> dict_get [(''A'', ''SPEAKER_01''), (''B'', ''SPEAKER_02'')] ''A'' = Inr ''SPEAKER_01''
   \<and> (\<exists>st'. build_vtt
          (Some [\<lparr>turn_start = 0, turn_end = 2, speaker = ''A''\<rparr>,
                 \<lparr>turn_start = 2, turn_end = 4, speaker = ''B''\<rparr>,
                 \<lparr>turn_start = 4, turn_end = 6, speaker = ''A''\<rparr>])
          [\<lparr>seg_start = 0, seg_end = 2, seg_text = ''one''\<rparr>] = Inr st'
        \<and> prefix (placeholder_map st') [(''A'', ''SPEAKER_01''), (''B'', ''SPEAKER_02'')])"
proof -
  let ?d = "Some [\<lparr>turn_start = 0, turn_end = 2, speaker = ''A''\<rparr>,
                  \<lparr>turn_start = 2, turn_end = 4, speaker = ''B''\<rparr>,
                  \<lparr>turn_start = 4, turn_end = 6, speaker = ''A''\<rparr>]"
  let ?segs = "[\<lparr>seg_start = 0, seg_end = 2, seg_text = ''one''\<rparr>,
                \<lparr>seg_start = 2, seg_end = 4, seg_text = ''two''\<rparr>,
                \<lparr>seg_start = 4, seg_end = 6, seg_text = ''three''\<rparr>]"
  have run: "build_vtt ?d ?segs
      = Inr \<lparr>vtt_lines = [''WEBVTT'', '''',
               ''00:00:00.000 --> 00:00:02.000'', ''[SPEAKER_01] one'', '''',
               ''00:00:02.000 --> 00:00:04.000'', ''[SPEAKER_02] two'', '''',
               ''00:00:04.000 --> 00:00:06.000'', ''[SPEAKER_01] three'', ''''],
             placeholder_map = [(''A'', ''SPEAKER_01''), (''B'', ''SPEAKER_02'')],
             counter = 3\<rparr>"
    by code_simp
  have sp: "speaker_of ?d \<lparr>seg_start = 0, seg_end = 2, seg_text = ''one''\<rparr> = ''A''"
    by code_simp
  obtain st where st: "build_vtt ?d ?segs = Inr st"
    and first: "?segs \<noteq> [] \<longrightarrow> dict_get (placeholder_map st) (speaker_of ?d (hd ?segs)) = Inr ''SPEAKER_01''"
    and stable: "\<forall>n \<le> length ?segs. \<exists>st'. build_vtt ?d (take n ?segs) = Inr st'
            \<and> prefix (placeholder_map st') (placeholder_map st)"
    using placeholder_map_dense [of ?d ?segs] by blast
  have pm: "placeholder_map st = [(''A'', ''SPEAKER_01''), (''B'', ''SPEAKER_02'')]"
    using st unfolding run by auto
  from first pm sp have "dict_get [(''A'', ''SPEAKER_01''), (''B'', ''SPEAKER_02'')] ''A'' = Inr ''SPEAKER_01''"
    by simp
  moreover from stable [rule_format, of 1] pm
  have "\<exists>st'. build_vtt ?d [\<lparr>seg_start = 0, seg_end = 2, seg_text = ''one''\<rparr>] = Inr st'
        \<and> prefix (placeholder_map st') [(''A'', ''SPEAKER_01''), (''B'', ''SPEAKER_02'')]"
    by simp
  ultimately show ?thesis
    using run by blast
qed

section \<open>The form of the placeholders\<close>

lemma digit_char_is_digit: "0 \<le> n \<Longrightarrow> n < 10 \<Longrightarrow> is_digit (digit_char n)"
proof -
  assume "0 \<le> n" "n < 10"
  then have "nat n < length ''0123456789''" by simp
  then have "''0123456789'' ! nat n \<in> set ''0123456789''" by (rule nth_mem)
  then show ?thesis by (simp only: is_digit_def digit_char_def)
qed

lemma dec_digits: "0 \<le> n \<Longrightarrow> list_all is_digit (dec n)"
proof (induction n rule: dec.induct)
  case (1 n)
  show ?case
  proof (cases "n < 10")
    case True
    with "1.prems" show ?thesis
      by (subst dec.simps) (simp add: digit_char_is_digit)
  next
    case False
    with "1.prems" have "list_all is_digit (dec (n div 10))" "is_digit (digit_char (n mod 10))"
      using "1.IH" by (simp_all add: digit_char_is_digit)
    with False show ?thesis
      by (subst dec.simps) simp
  qed
qed

lemma length_dec_small: "0 \<le> n \<Longrightarrow> n \<le> 99 \<Longrightarrow> length (dec n) \<le> 2"
proof -
  assume n: "0 \<le> n" "n \<le> 99"
  show ?thesis
  proof (cases "n < 10")
    case True
    then show ?thesis by (subst dec.simps) simp
  next
    case False
    with n have "n div 10 < 10" by simp
    then have "length (dec (n div 10)) = 1" by (subst dec.simps) simp
    with False show ?thesis by (subst dec.simps) simp
  qed
qed

lemma zeros_digits: "list_all is_digit (replicate k (CHR ''0''))"
  by (simp add: list_all_iff is_digit_def)

lemma fmt_02d_digits: "0 \<le> n \<Longrightarrow> list_all is_digit (fmt_02d n)"
  by (simp add: fmt_02d_def zfill_def dec_digits zeros_digits)

lemma length_fmt_02d: "0 \<le> n \<Longrightarrow> 2 \<le> length (fmt_02d n)"
  by (simp add: fmt_02d_def zfill_def)

lemma length_fmt_02d_small: "0 \<le> n \<Longrightarrow> n \<le> 99 \<Longrightarrow> length (fmt_02d n) = 2"
  using length_dec_small [of n] by (simp add: fmt_02d_def zfill_def)

lemma is_digit_no_bracket: "is_digit c \<Longrightarrow> c \<noteq> CHR ''['' \<and> c \<noteq> CHR '']''"
  by (auto simp: is_digit_def)

lemma label_no_bracket:
  "0 \<le> n \<Longrightarrow> CHR ''['' \<notin> set (label n) \<and> CHR '']'' \<notin> set (label n)"
  using fmt_02d_digits [of n] is_digit_no_bracket
  by (auto simp: label_def list_all_iff)

lemma sublist_bracketed:
  assumes "CHR ''['' \<notin> set b" and "CHR '']'' \<notin> set a" and "CHR '']'' \<notin> set b"
    and "sublist (''['' @ a @ '']'') (''['' @ b @ '']'')"
  shows "a = b"
proof -
  from assms(4) obtain ps ss where eq: "''['' @ b @ '']'' = ps @ (''['' @ a @ '']'') @ ss"
    by (auto simp: sublist_def)
  show ?thesis
  proof (cases ps)
    case Nil
    with eq have "b @ CHR '']'' # [] = a @ CHR '']'' # ss" by simp
    then show ?thesis
      using assms(2,3) append_Cons_eq_iff [of "CHR '']''" b "[]" a ss] by simp
  next
    case (Cons c ps')
    with eq have "b @ '']'' = ps' @ CHR ''['' # a @ '']'' @ ss" by simp
    then have "CHR ''['' \<in> set (b @ '']'')" by simp
    with assms(1) show ?thesis by simp
  qed
qed

lemma first_seen_distinct: "distinct xs \<Longrightarrow> first_seen xs = xs"
  by (induction xs) (simp_all add: set_first_seen)

lemma scan_hundred:
  "a \<le> i \<Longrightarrow> i \<le> b \<Longrightarrow>
   scan_turns (map (\<lambda>j. \<lparr>turn_start = of_int j, turn_end = of_int j + 1, speaker = dec j\<rparr>) [a..b])
     (Fin (of_int i + 1 / 2)) = dec i"
proof (induction "nat (i - a)" arbitrary: a)
  case 0
  then have "a = i" by simp
  moreover from 0 have "[i..b] = i # [i + 1..b]"
    by (subst upto_rec1) simp_all
  ultimately show ?case by simp
next
  case (Suc n)
  then have less: "a < i" by simp
  then have "(of_int a :: rat) + 1 \<le> of_int i"
    using of_int_le_iff [of "a + 1" i, where ?'a = rat] by simp
  then have miss: "\<not> (of_int i + 1 / 2 \<le> (of_int a :: rat) + 1)"
    by simp
  from less Suc.prems have "[a..b] = a # [a + 1..b]"
    by (subst upto_rec1) simp_all
  moreover have "scan_turns
      (map (\<lambda>j. \<lparr>turn_start = of_int j, turn_end = of_int j + 1, speaker = dec j\<rparr>) [a + 1..b])
      (Fin (of_int i + 1 / 2)) = dec i"
    using Suc.hyps(2) less Suc.prems by (intro Suc.hyps(1)) simp_all
  ultimately show ?case
    using miss by simp
qed

lemma hundred_speakers:
  "map (speaker_of (Some hundred_turns)) hundred_segments = map dec [0..99]"
proof -
  have "speaker_of (Some hundred_turns)
          \<lparr>seg_start = of_int i, seg_end = of_int i + 1, seg_text = ''hi''\<rparr> = dec i"
    if "i \<in> set [0..99]" for i
  proof -
    have "mid_time (of_int i) (of_int i + 1) = Fin (of_int i + 1 / 2)"
      using that by (intro mid_time_unit_segment) simp_all
    then show ?thesis
      using that scan_hundred [of 0 i 99]
      by (simp add: speaker_of_def get_speaker_for_segment_def hundred_turns_def)
  qed
  then show ?thesis
    by (simp add: hundred_segments_def)
qed

lemma hundred_distinct: "distinct (map dec [0..99])"
  by code_simp

text \<open>
  Claim C8, as the claim states it, fails: the format \<open>02d\<close> pads to at least two digits,
  and the hundredth distinct speaker of a job gets a placeholder with three digits.
\<close>

theorem placeholder_three_digits_counterexample:
  "map_sum id (last \<circ> placeholder_map) (build_vtt (Some hundred_turns) hundred_segments)
     = Inr (''99'', ''SPEAKER_100'')"
proof -
  let ?pm = "placeholder_map (foldl (next_state (Some hundred_turns)) initial_state hundred_segments)"
  have keys: "map fst ?pm = map dec [0..99]"
    by (simp only: build_vtt_keys hundred_speakers first_seen_distinct [OF hundred_distinct])
  have "card (set (map dec [0..99])) = length (map dec [0..99])"
    by (rule distinct_card [OF hundred_distinct])
  then have "card (set (map (speaker_of (Some hundred_turns)) hundred_segments)) = 100"
    by (simp add: hundred_speakers)
  then have "map snd ?pm = map label [1..100]"
    using build_vtt_labels [of "Some hundred_turns" hundred_segments] by simp
  moreover have "[1..100] = [1..99] @ [100::int]"
    using upto_rec2 [of 1 100] by simp
  ultimately have labels: "last (map snd ?pm) = label 100"
    by simp
  have ne: "?pm \<noteq> []"
    using arg_cong [OF keys, of length] by auto
  have "[0..99] = [0..98] @ [99::int]"
    using upto_rec2 [of 0 99] by simp
  then have "last (map fst ?pm) = dec 99"
    by (simp add: keys)
  with labels ne have "last ?pm = (dec 99, label 100)"
    by (simp add: last_map prod_eq_iff)
  moreover have "dec 99 = ''99''" "label 100 = ''SPEAKER_100''"
    by code_simp+
  ultimately show ?thesis
    by (simp add: build_vtt_eq)
qed

text \<open>
  Claim C8, amended. Every placeholder the loop assigns is SPEAKER_ followed by the decimal
  digits of its number \<open>n\<close>, between 1 and the number of distinct speaker keys, padded with
  zeros to at least two digits: exactly two digits up to \<open>n = 99\<close>. Whatever the number of
  speaker keys, the bracketed token of one assigned placeholder occurs inside the bracketed
  token of another only when the two placeholders are equal.
\<close>

theorem placeholder_tokens_amended:
  "\<exists>st. build_vtt d segs = Inr st
     \<and> (\<forall>p \<in> set (map snd (placeholder_map st)).
           \<exists>n. 1 \<le> n \<and> n \<le> int (card (set (map (speaker_of d) segs)))
             \<and> p = ''SPEAKER_'' @ fmt_02d n
             \<and> list_all is_digit (fmt_02d n) \<and> 2 \<le> length (fmt_02d n)
             \<and> (n \<le> 99 \<longrightarrow> length (fmt_02d n) = 2))
     \<and> (\<forall>p \<in> set (map snd (placeholder_map st)). \<forall>q \<in> set (map snd (placeholder_map st)).
           sublist (''['' @ p @ '']'') (''['' @ q @ '']'') \<longrightarrow> p = q)"
proof -
  let ?st = "foldl (next_state d) initial_state segs"
  let ?k = "int (card (set (map (speaker_of d) segs)))"
  have labels: "\<exists>n. 1 \<le> n \<and> n \<le> ?k \<and> p = label n"
    if "p \<in> set (map snd (placeholder_map ?st))" for p
    using that unfolding build_vtt_labels by auto
  have form: "\<exists>n. 1 \<le> n \<and> n \<le> ?k
             \<and> p = ''SPEAKER_'' @ fmt_02d n
             \<and> list_all is_digit (fmt_02d n) \<and> 2 \<le> length (fmt_02d n)
             \<and> (n \<le> 99 \<longrightarrow> length (fmt_02d n) = 2)"
    if "p \<in> set (map snd (placeholder_map ?st))" for p
  proof -
    from labels [OF that] obtain n where n: "1 \<le> n" "n \<le> ?k" "p = label n" by blast
    then have "0 \<le> n" by simp
    then show ?thesis
      using n fmt_02d_digits [of n] length_fmt_02d [of n] length_fmt_02d_small [of n]
      by (auto simp: label_def)
  qed
  have apart: "p = q"
    if "p \<in> set (map snd (placeholder_map ?st))" "q \<in> set (map snd (placeholder_map ?st))"
      "sublist (''['' @ p @ '']'') (''['' @ q @ '']'')" for p q
  proof -
    from labels [OF that(1)] obtain n where n1: "1 \<le> n" and pn: "p = label n" by blast
    from labels [OF that(2)] obtain m where m1: "1 \<le> m" and qm: "q = label m" by blast
    from n1 pn have n: "0 \<le> n" "p = label n" by simp_all
    from m1 qm have m: "0 \<le> m" "q = label m" by simp_all
    show ?thesis
      using sublist_bracketed [OF _ _ _ that(3)] label_no_bracket [OF n(1)] label_no_bracket [OF m(1)]
      by (simp add: n m)
  qed
  show ?thesis
    using build_vtt_eq [of d segs] form apart by blast
qed

theorem placeholder_tokens_amended_witness:
  "\<exists>st. build_vtt None [\<lparr>seg_start = 0, seg_end = 2, seg_text = ''hello''\<rparr>] = Inr st
     \<and> set (map snd (placeholder_map st)) = {''SPEAKER_01''}
     \<and> (\<exists>n. 1 \<le> n \<and> n \<le> 1 \<and> ''SPEAKER_01'' = ''SPEAKER_'' @ fmt_02d n \<and> length (fmt_02d n) = 2)"
proof -
  let ?segs = "[\<lparr>seg_start = 0, seg_end = 2, seg_text = ''hello''\<rparr>]"
  have run: "build_vtt None ?segs
      = Inr \<lparr>vtt_lines = [''WEBVTT'', '''', ''00:00:00.000 --> 00:00:02.000'', ''[SPEAKER_01] hello'', ''''],
             placeholder_map = [(''Unknown'', ''SPEAKER_01'')],
             counter = 2\<rparr>"
    by code_simp
  obtain st where st: "build_vtt None ?segs = Inr st"
    and form: "\<forall>p \<in> set (map snd (placeholder_map st)).
           \<exists>n. 1 \<le> n \<and> n \<le> int (card (set (map (speaker_of None) ?segs)))
             \<and> p = ''SPEAKER_'' @ fmt_02d n
             \<and> list_all is_digit (fmt_02d n) \<and> 2 \<le> length (fmt_02d n)
             \<and> (n \<le> 99 \<longrightarrow> length (fmt_02d n) = 2)"
    using placeholder_tokens_amended [of None ?segs] by blast
  have pm: "placeholder_map st = [(''Unknown'', ''SPEAKER_01'')]"
    using st unfolding run by auto
  from form pm obtain n where "1 \<le> n" "n \<le> 1" "''SPEAKER_01'' = ''SPEAKER_'' @ fmt_02d n"
      "n \<le> 99 \<longrightarrow> length (fmt_02d n) = 2"
    by auto
  then have "\<exists>n. 1 \<le> n \<and> n \<le> 1 \<and> ''SPEAKER_01'' = ''SPEAKER_'' @ fmt_02d n \<and> length (fmt_02d n) = 2"
    by (intro exI [of _ n]) simp
  then show ?thesis
    using st pm by (intro exI [of _ st]) simp
qed

section \<open>The job an upload stores\<close>

lemma split_char_no_sep: "sep \<notin> set s \<Longrightarrow> split_char sep s = [s]"
  by (induction s) auto

lemma fmt_02d_no_underscore: "0 \<le> n \<Longrightarrow> CHR ''_'' \<notin> set (fmt_02d n)"
  using fmt_02d_digits [of n] by (auto simp: list_all_iff is_digit_def)

lemma placeholder_key_label: "0 \<le> n \<Longrightarrow> \<exists>k. placeholder_key (label n) = Inr k"
proof -
  assume n: "0 \<le> n"
  have "split_char (CHR ''_'') (label n) = [''SPEAKER'', fmt_02d n]"
    by (simp add: label_def split_char_no_sep [OF fmt_02d_no_underscore [OF n]])
  moreover have "fmt_02d n \<noteq> []"
    using length_fmt_02d [OF n] by auto
  ultimately show ?thesis
    using fmt_02d_digits [OF n] by (simp add: placeholder_key_def py_int_def)
qed

lemma keyed_ok: "\<forall>x \<in> set xs. \<exists>k. placeholder_key x = Inr k \<Longrightarrow> \<exists>ks. keyed xs = Inr ks"
proof (induction xs)
  case Nil
  show ?case by simp
next
  case (Cons x xs)
  then obtain k ks where "placeholder_key x = Inr k" "keyed xs = Inr ks"
    by auto
  then show ?case by simp
qed

lemma sorted_placeholders_ok:
  "\<exists>placeholders.
     sorted_placeholders (map snd (placeholder_map (foldl (next_state d) initial_state segs)))
       = Inr placeholders"
proof -
  have "\<forall>x \<in> set (map label [1..int (card (set (map (speaker_of d) segs)))]).
          \<exists>k. placeholder_key x = Inr k"
    by (auto intro: placeholder_key_label)
  from keyed_ok [OF this] show ?thesis
    by (auto simp: sorted_placeholders_def build_vtt_labels)
qed

lemma index_stores_job:
  assumes "req_method req = ''POST''" and "video_part req = Some filename" and "filename \<noteq> ''''"
    and "ffmpeg_ok env" and "huggingface_token env = Some token" and "token \<noteq> ''''"
  shows "\<exists>placeholders.
     index generated_files req env =
       Inr (RenderEdit (new_uid env) placeholders,
            generated_files(new_uid env \<mapsto>
              \<lparr>vtt = vtt_content (foldl (next_state (diarization_result env)) initial_state (segments env)),
               transcript = transcript_text env,
               video_path = video_filename env,
               job_placeholder_map =
                 placeholder_map (foldl (next_state (diarization_result env)) initial_state (segments env))\<rparr>))"
proof -
  obtain placeholders where
    "sorted_placeholders (map snd (placeholder_map
        (foldl (next_state (diarization_result env)) initial_state (segments env)))) = Inr placeholders"
    using sorted_placeholders_ok by blast
  with assms show ?thesis
    by (simp add: index_def build_vtt_eq Let_def)
qed

section \<open>The subtitle track\<close>

lemma join_Cons: "ys \<noteq> [] \<Longrightarrow> join sep (x # ys) = x @ sep @ join sep ys"
  by (cases ys) simp_all

lemma join_cues:
  "join sep (concat (map (\<lambda>s. [[], a s, b s]) segs) @ [[]])
     = concat (map (\<lambda>s. sep @ a s @ sep @ b s @ sep) segs)"
  by (induction segs) (simp_all add: join_Cons)

lemma lines_shape:
  "[w, []] @ concat (map (\<lambda>s. [a s, b s, []]) segs)
     = w # concat (map (\<lambda>s. [[], a s, b s]) segs) @ [[]]"
  by (induction segs) simp_all

lemma concat_shift:
  "concat (map (\<lambda>s. sep @ f s) segs) @ sep = sep @ concat (map (\<lambda>s. f s @ sep) segs)"
  by (induction segs) simp_all

lemma join_track:
  "join sep ([w, []] @ concat (map (\<lambda>s. [a s, b s, []]) segs)) @ sep
     = w @ sep @ sep @ concat (map (\<lambda>s. a s @ sep @ b s @ sep @ sep) segs)"
proof -
  have "join sep ([w, []] @ concat (map (\<lambda>s. [a s, b s, []]) segs))
      = w @ sep @ concat (map (\<lambda>s. sep @ a s @ sep @ b s @ sep) segs)"
    unfolding lines_shape by (simp add: join_Cons join_cues)
  moreover have "concat (map (\<lambda>s. sep @ (a s @ sep @ b s @ sep)) segs) @ sep
      = sep @ concat (map (\<lambda>s. (a s @ sep @ b s @ sep) @ sep) segs)"
    by (rule concat_shift)
  ultimately show ?thesis by simp
qed

lemma build_vtt_content:
  "vtt_content (foldl (next_state d) initial_state segs) @ ''\<newline>'' =
     ''WEBVTT'' @ ''\<newline>'' @ ''\<newline>'' @
     concat (map (\<lambda>seg.
        (format_timestamp (seg_start seg) @ '' --> '' @ format_timestamp (seg_end seg)) @ ''\<newline>'' @
        (''['' @ placeholder_of (placeholder_map (foldl (next_state d) initial_state segs)) (speaker_of d seg)
           @ ''] '' @ strip (seg_text seg)) @ ''\<newline>'' @ ''\<newline>'') segs)"
proof -
  let ?st = "foldl (next_state d) initial_state segs"
  have "vtt_lines ?st = [''WEBVTT'', []] @
      concat (map (\<lambda>seg.
        [format_timestamp (seg_start seg) @ '' --> '' @ format_timestamp (seg_end seg),
         ''['' @ placeholder_of (placeholder_map ?st) (speaker_of d seg) @ ''] '' @ strip (seg_text seg),
         []]) segs)"
    using fold_lines [of d initial_state segs] by (simp add: initial_state_def cue_lines_def)
  then show ?thesis
    unfolding vtt_content_def by (simp only: join_track)
qed

text \<open>
  Claim C1, as the claim states it, fails: the lines are joined with newlines and the last
  line is not terminated, so the track of Scenario A ends with one newline, not two.
\<close>

theorem vtt_scenario_a_counterexample:
  "map_sum id vtt_content (build_vtt None [\<lparr>seg_start = 0, seg_end = 2, seg_text = ''hello''\<rparr>])
     = Inr ''WEBVTT\<newline>\<newline>00:00:00.000 --> 00:00:02.000\<newline>[SPEAKER_01] hello\<newline>''
   \<and> map_sum id vtt_content (build_vtt None [\<lparr>seg_start = 0, seg_end = 2, seg_text = ''hello''\<rparr>])
     \<noteq> Inr ''WEBVTT\<newline>\<newline>00:00:00.000 --> 00:00:02.000\<newline>[SPEAKER_01] hello\<newline>\<newline>''"
  by code_simp

text \<open>
  Claim C1, amended. For every upload the loop over the segments never raises, every
  segment's speaker key has an entry in the final placeholder mapping, and the track is the
  byte string of the claim without its last newline: the track followed by one newline is
  the header line WEBVTT, a blank line and, for each segment in input order, the line with
  the two formatted timestamps, the line with the bracketed placeholder of the segment's
  speaker key and the stripped text, and a blank line. A segment with empty text has its
  cue like every other segment. A POST request with a named file, a successful audio
  extraction and a token stores exactly this track as the \<open>vtt\<close> of the new job.
\<close>

theorem vtt_track_amended:
  "\<exists>st. build_vtt (diarization_result env) (segments env) = Inr st
     \<and> (\<forall>seg \<in> set (segments env).
           dict_mem (placeholder_map st) (speaker_of (diarization_result env) seg))
     \<and> vtt_content st @ ''\<newline>'' =
         ''WEBVTT\<newline>\<newline>'' @
         concat (map (\<lambda>seg.
            format_timestamp (seg_start seg) @ '' --> '' @ format_timestamp (seg_end seg) @ ''\<newline>'' @
            ''['' @ placeholder_of (placeholder_map st) (speaker_of (diarization_result env) seg) @ ''] '' @
            strip (seg_text seg) @ ''\<newline>\<newline>'') (segments env))
     \<and> (req_method req = ''POST'' \<and> video_part req = Some filename \<and> filename \<noteq> []
          \<and> ffmpeg_ok env \<and> huggingface_token env = Some token \<and> token \<noteq> []
        \<longrightarrow> (\<exists>placeholders.
              index generated_files req env =
                Inr (RenderEdit (new_uid env) placeholders,
                     generated_files(new_uid env \<mapsto>
                       \<lparr>vtt = vtt_content st, transcript = transcript_text env,
                        video_path = video_filename env,
                        job_placeholder_map = placeholder_map st\<rparr>))))"
proof -
  let ?d = "diarization_result env" and ?segs = "segments env"
  let ?st = "foldl (next_state ?d) initial_state ?segs"
  have "set (map fst (placeholder_map ?st)) = speaker_of ?d ` set ?segs"
    by (simp only: build_vtt_keys set_first_seen set_map)
  then have mem: "\<forall>seg \<in> set ?segs. dict_mem (placeholder_map ?st) (speaker_of ?d seg)"
    by (simp add: dict_mem_def)
  have stored: "\<exists>placeholders.
              index generated_files req env =
                Inr (RenderEdit (new_uid env) placeholders,
                     generated_files(new_uid env \<mapsto>
                       \<lparr>vtt = vtt_content ?st, transcript = transcript_text env,
                        video_path = video_filename env,
                        job_placeholder_map = placeholder_map ?st\<rparr>))"
    if "req_method req = ''POST'' \<and> video_part req = Some filename \<and> filename \<noteq> []
          \<and> ffmpeg_ok env \<and> huggingface_token env = Some token \<and> token \<noteq> []"
    using that by (intro index_stores_job [where filename = filename and token = token]) simp_all
  have track: "vtt_content ?st @ ''\<newline>'' =
         ''WEBVTT\<newline>\<newline>'' @
         concat (map (\<lambda>seg.
            format_timestamp (seg_start seg) @ '' --> '' @ format_timestamp (seg_end seg) @ ''\<newline>'' @
            ''['' @ placeholder_of (placeholder_map ?st) (speaker_of ?d seg) @ ''] '' @
            strip (seg_text seg) @ ''\<newline>\<newline>'') ?segs)"
    using build_vtt_content [of ?d ?segs] by simp
  show ?thesis
    using build_vtt_eq [of ?d ?segs] mem track stored by (intro exI [of _ ?st]) blast
qed

text \<open>
  An upload whose diarization failed, with the segment of Scenario A and a segment whose
  text is blank.
\<close>

theorem vtt_track_amended_witness:
  "\<exists>st placeholders.
     build_vtt None [\<lparr>seg_start = 0, seg_end = 2, seg_text = ''hello''\<rparr>,
                     \<lparr>seg_start = 2, seg_end = 3, seg_text = ''  ''\<rparr>] = Inr st
     \<and> dict_mem (placeholder_map st) ''Unknown''
     \<and> vtt_content st @ ''\<newline>'' =
         ''WEBVTT\<newline>\<newline>00:00:00.000 --> 00:00:02.000\<newline>[SPEAKER_01] hello\<newline>\<newline>00:00:02.000 --> 00:00:03.000\<newline>[SPEAKER_01] \<newline>\<newline>''
     \<and> index Map.empty \<lparr>req_method = ''POST'', video_part = Some ''clip.mp4''\<rparr>
           \<lparr>video_filename = ''/tmp/u_clip.mp4'', ffmpeg_ok = True, huggingface_token = Some ''hf_token'',
            diarization_result = None, transcript_text = ''hello'',
            segments = [\<lparr>seg_start = 0, seg_end = 2, seg_text = ''hello''\<rparr>,
                        \<lparr>seg_start = 2, seg_end = 3, seg_text = ''  ''\<rparr>],
            new_uid = ''job-1''\<rparr>
         = Inr (RenderEdit ''job-1'' placeholders,
                Map.empty(''job-1'' \<mapsto>
                  \<lparr>vtt = vtt_content st, transcript = ''hello'', video_path = ''/tmp/u_clip.mp4'',
                   job_placeholder_map = placeholder_map st\<rparr>))"
proof -
  let ?segs = "[\<lparr>seg_start = 0, seg_end = 2, seg_text = ''hello''\<rparr>,
                \<lparr>seg_start = 2, seg_end = 3, seg_text = ''  ''\<rparr>]"
  let ?req = "\<lparr>req_method = ''POST'', video_part = Some ''clip.mp4''\<rparr>"
  let ?env = "\<lparr>video_filename = ''/tmp/u_clip.mp4'', ffmpeg_ok = True, huggingface_token = Some ''hf_token'',
            diarization_result = None, transcript_text = ''hello'', segments = ?segs,
            new_uid = ''job-1''\<rparr>"
  have run: "build_vtt None ?segs
      = Inr \<lparr>vtt_lines = [''WEBVTT'', [],
               ''00:00:00.000 --> 00:00:02.000'', ''[SPEAKER_01] hello'', [],
               ''00:00:02.000 --> 00:00:03.000'', ''[SPEAKER_01] '', []],
             placeholder_map = [(''Unknown'', ''SPEAKER_01'')],
             counter = 2\<rparr>"
    by code_simp
  have t: "format_timestamp 0 = ''00:00:00.000''" "format_timestamp 2 = ''00:00:02.000''"
    "format_timestamp 3 = ''00:00:03.000''" "strip ''hello'' = ''hello''" "strip ''  '' = []"
    by code_simp+
  obtain st where st: "build_vtt None ?segs = Inr st"
    and mem: "\<forall>seg \<in> set ?segs. dict_mem (placeholder_map st) (speaker_of None seg)"
    and track: "vtt_content st @ ''\<newline>'' =
         ''WEBVTT\<newline>\<newline>'' @
         concat (map (\<lambda>seg.
            format_timestamp (seg_start seg) @ '' --> '' @ format_timestamp (seg_end seg) @ ''\<newline>'' @
            ''['' @ placeholder_of (placeholder_map st) (speaker_of None seg) @ ''] '' @
            strip (seg_text seg) @ ''\<newline>\<newline>'') ?segs)"
    and stored: "\<exists>placeholders.
              index Map.empty ?req ?env =
                Inr (RenderEdit ''job-1'' placeholders,
                     Map.empty(''job-1'' \<mapsto>
                       \<lparr>vtt = vtt_content st, transcript = ''hello'',
                        video_path = ''/tmp/u_clip.mp4'',
                        job_placeholder_map = placeholder_map st\<rparr>))"
    using vtt_track_amended [of ?env ?req "''clip.mp4''" "''hf_token''" Map.empty] by auto
  have pm: "placeholder_map st = [(''Unknown'', ''SPEAKER_01'')]"
    using st unfolding run by auto
  have "dict_mem (placeholder_map st) ''Unknown''"
    using mem by (auto simp: speaker_of_def get_speaker_none)
  moreover have "''WEBVTT\<newline>\<newline>'' @
         concat (map (\<lambda>seg.
            format_timestamp (seg_start seg) @ '' --> '' @ format_timestamp (seg_end seg) @ ''\<newline>'' @
            ''['' @ placeholder_of (placeholder_map st) (speaker_of None seg) @ ''] '' @
            strip (seg_text seg) @ ''\<newline>\<newline>'') ?segs)
       = ''WEBVTT\<newline>\<newline>00:00:00.000 --> 00:00:02.000\<newline>[SPEAKER_01] hello\<newline>\<newline>00:00:02.000 --> 00:00:03.000\<newline>[SPEAKER_01] \<newline>\<newline>''"
    by (simp add: pm speaker_of_def get_speaker_none t placeholder_of_def)
  moreover from stored obtain placeholders where
    "index Map.empty ?req ?env =
                Inr (RenderEdit ''job-1'' placeholders,
                     Map.empty(''job-1'' \<mapsto>
                       \<lparr>vtt = vtt_content st, transcript = ''hello'',
                        video_path = ''/tmp/u_clip.mp4'',
                        job_placeholder_map = placeholder_map st\<rparr>))"
    by blast
  ultimately show ?thesis
    using st track by (intro exI [of _ st] exI [of _ placeholders]) (simp only: simp_thms)
qed

section \<open>Replacing bracketed tokens\<close>

lemma replace_same: "replace old old s = s"
proof (induction s rule: length_induct)
  case (1 s)
  show ?case
  proof (cases s)
    case Nil
    then show ?thesis by simp
  next
    case (Cons c cs)
    have tail: "replace old old cs = cs"
      using "1.IH" [rule_format, of cs] Cons by simp
    show ?thesis
    proof (cases "old = []")
      case True
      with tail Cons show ?thesis by simp
    next
      case False
      show ?thesis
      proof (cases "prefix old (c # cs)")
        case True
        then obtain r where r: "c # cs = old @ r"
          by (auto simp: prefix_def)
        then have "length r < length s"
          using False Cons arg_cong [OF r, of length] by simp
        then have rr: "replace old old r = r"
          using "1.IH" [rule_format, of r] by simp
        have d: "drop (length old) (c # cs) = r"
          by (simp add: r)
        have step: "replace old old (c # cs) = old @ replace old old (drop (length old) (c # cs))"
          using True False by simp
        show ?thesis
          unfolding Cons step d rr by (simp add: r)
      next
        case no: False
        with tail False Cons show ?thesis by simp
      qed
    qed
  qed
qed

lemma sublist_Cons_cases:
  "sublist xs (y # ys) \<longleftrightarrow> prefix xs (y # ys) \<or> sublist xs ys"
  by (rule sublist_Cons_right)

lemma replace_absent: "old \<noteq> [] \<Longrightarrow> \<not> sublist old s \<Longrightarrow> replace old new s = s"
proof (induction s)
  case Nil
  then show ?case by simp
next
  case (Cons c cs)
  from Cons.prems(2) have "\<not> prefix old (c # cs)" "\<not> sublist old cs"
    by (simp_all add: sublist_Cons_cases)
  with Cons show ?case by simp
qed

lemma prefix_replace_back:
  "CHR ''['' \<notin> set w \<Longrightarrow> prefix w (replace (CHR ''['' # old) (CHR ''['' # new) s) \<Longrightarrow> prefix w s"
proof (induction w arbitrary: s)
  case Nil
  show ?case by simp
next
  case (Cons x w)
  show ?case
  proof (cases s)
    case Nil
    with Cons.prems show ?thesis by simp
  next
    case s: (Cons c cs)
    show ?thesis
    proof (cases "prefix (CHR ''['' # old) (c # cs)")
      case True
      then have "replace (CHR ''['' # old) (CHR ''['' # new) (c # cs)
          = (CHR ''['' # new) @ replace (CHR ''['' # old) (CHR ''['' # new)
              (drop (length (CHR ''['' # old)) (c # cs))"
        by (simp only: replace.simps) simp
      with Cons.prems s show ?thesis by simp
    next
      case False
      then have "replace (CHR ''['' # old) (CHR ''['' # new) (c # cs)
          = c # replace (CHR ''['' # old) (CHR ''['' # new) cs"
        by (simp only: replace.simps) simp
      with Cons.prems s have "x = c" "prefix w (replace (CHR ''['' # old) (CHR ''['' # new) cs)"
        by simp_all
      with Cons.IH [of cs] Cons.prems(1) s show ?thesis by simp
    qed
  qed
qed

lemma first_split_unique:
  "x \<notin> set xs \<Longrightarrow> x \<notin> set ys \<Longrightarrow> xs @ x # r = ys @ x # r' \<Longrightarrow> xs = ys"
proof (induction xs arbitrary: ys)
  case Nil
  then show ?case by (cases ys) auto
next
  case (Cons a xs)
  then show ?case by (cases ys) auto
qed

lemma prefix_bracketed:
  assumes "CHR '']'' \<notin> set k" and "CHR '']'' \<notin> set n"
    and "prefix (k @ CHR '']'' # x) (n @ CHR '']'' # y)"
  shows "k = n"
proof -
  from assms(3) obtain z where eq: "k @ CHR '']'' # (x @ z) = n @ CHR '']'' # y"
    by (auto simp: prefix_def)
  show ?thesis
    by (rule first_split_unique [OF assms(1) assms(2) eq])
qed

lemma sublist_skip_name:
  "CHR ''['' \<notin> set n \<Longrightarrow> sublist (CHR ''['' # w) (n @ CHR '']'' # r) \<Longrightarrow> sublist (CHR ''['' # w) r"
  by (induction n) (auto simp: sublist_Cons_cases)

lemma sublist_after_token:
  assumes "no_bracket k" and "no_bracket n" and "k \<noteq> n"
    and "sublist (CHR ''['' # k @ '']'') (CHR ''['' # n @ '']'' @ r)"
  shows "sublist (CHR ''['' # k @ '']'') r"
proof -
  from assms(4) consider "prefix (CHR ''['' # k @ '']'') (CHR ''['' # n @ '']'' @ r)"
    | "sublist (CHR ''['' # k @ '']'') (n @ '']'' @ r)"
    by (auto simp: sublist_Cons_cases)
  then show ?thesis
  proof cases
    case 1
    then have "prefix (k @ CHR '']'' # []) (n @ CHR '']'' # r)" by simp
    with assms(1,2) have "k = n"
      by (intro prefix_bracketed) (simp_all add: no_bracket_def)
    with assms(3) show ?thesis by simp
  next
    case 2
    with assms(2) show ?thesis
      using sublist_skip_name [of n "k @ '']''" r] by (simp add: no_bracket_def)
  qed
qed

lemma sublist_of_drop:
  assumes "sublist xs (drop n ys)"
  shows "sublist xs ys"
proof -
  from assms obtain ps ss where "drop n ys = ps @ xs @ ss"
    by (auto simp: sublist_def)
  then have "ys = (take n ys @ ps) @ xs @ ss"
    using append_take_drop_id [of n ys] by simp
  then show ?thesis
    unfolding sublist_def by blast
qed

lemma replace_no_new_token:
  assumes "no_bracket k" and "no_bracket n" and "k \<noteq> n"
  shows "k' = k \<or> \<not> sublist (CHR ''['' # k @ '']'') s
         \<Longrightarrow> \<not> sublist (CHR ''['' # k @ '']'') (replace (CHR ''['' # k' @ '']'') (CHR ''['' # n @ '']'') s)"
proof (induction s rule: length_induct)
  case (1 s)
  let ?old = "CHR ''['' # k' @ '']''" and ?new = "CHR ''['' # n @ '']''" and ?tok = "CHR ''['' # k @ '']''"
  show ?case
  proof (cases s)
    case Nil
    then show ?thesis by simp
  next
    case (Cons c cs)
    show ?thesis
    proof (cases "prefix ?old (c # cs)")
      case True
      let ?rest = "drop (length ?old) (c # cs)"
      have "length ?rest < length s" using Cons by simp
      moreover have "k' = k \<or> \<not> sublist ?tok ?rest"
        using "1.prems" Cons sublist_of_drop [of ?tok "length ?old" "c # cs"] by blast
      ultimately have "\<not> sublist ?tok (replace ?old ?new ?rest)"
        using "1.IH" [rule_format, of ?rest] by blast
      then have "\<not> sublist ?tok (?new @ replace ?old ?new ?rest)"
        using sublist_after_token [OF assms, of "replace ?old ?new ?rest"] by auto
      with True Cons show ?thesis by simp
    next
      case False
      have "k' = k \<or> \<not> sublist ?tok cs"
        using "1.prems" Cons by (auto simp: sublist_Cons_cases)
      moreover have "length cs < length s" using Cons by simp
      ultimately have tail: "\<not> sublist ?tok (replace ?old ?new cs)"
        using "1.IH" [rule_format, of cs] by blast
      have "\<not> prefix ?tok (c # replace ?old ?new cs)"
      proof
        assume p: "prefix ?tok (c # replace ?old ?new cs)"
        then have c: "c = CHR ''[''" and "prefix (k @ '']'') (replace ?old ?new cs)"
          by auto
        moreover have "CHR ''['' \<notin> set (k @ '']'')"
          using assms(1) by (simp add: no_bracket_def)
        ultimately have "prefix (k @ '']'') cs"
          using prefix_replace_back [of "k @ '']''" "k' @ '']''" "n @ '']''" cs] by simp
        with c have here: "prefix ?tok (c # cs)" by simp
        from "1.prems" show False
        proof
          assume "k' = k"
          with here False show False by simp
        next
          assume "\<not> sublist ?tok s"
          with here Cons show False by (simp add: sublist_Cons_cases)
        qed
      qed
      moreover have "replace ?old ?new (c # cs) = c # replace ?old ?new cs"
        using False by (simp only: replace.simps) simp
      ultimately show ?thesis
        using tail Cons by (simp add: sublist_Cons_cases)
    qed
  qed
qed

section \<open>The rename request\<close>

lemma form_items_fold_set:
  "set (foldl (\<lambda>acc (key, val). if dict_mem acc key then acc else acc @ [(key, val)]) acc form)
     \<subseteq> set acc \<union> set form"
proof (induction form arbitrary: acc)
  case Nil
  show ?case by simp
next
  case (Cons p form)
  obtain key val where p: "p = (key, val)" by (cases p)
  have "set (if dict_mem acc key then acc else acc @ [(key, val)]) \<subseteq> set acc \<union> {p}"
    by (auto simp: p)
  with Cons.IH [of "if dict_mem acc key then acc else acc @ [(key, val)]"] show ?case
    by (simp only: foldl_Cons p prod.case) auto
qed

lemma form_items_fold_distinct:
  "distinct (map fst acc) \<Longrightarrow>
   distinct (map fst (foldl (\<lambda>acc (key, val). if dict_mem acc key then acc else acc @ [(key, val)]) acc form))"
proof (induction form arbitrary: acc)
  case Nil
  then show ?case by simp
next
  case (Cons p form)
  obtain key val where p: "p = (key, val)" by (cases p)
  have "distinct (map fst (if dict_mem acc key then acc else acc @ [(key, val)]))"
    using Cons.prems by (simp add: dict_mem_def)
  from Cons.IH [OF this] show ?case by (simp add: p)
qed

lemma form_items_fold_id:
  "distinct (map fst (acc @ form)) \<Longrightarrow>
   foldl (\<lambda>acc (key, val). if dict_mem acc key then acc else acc @ [(key, val)]) acc form = acc @ form"
proof (induction form arbitrary: acc)
  case Nil
  show ?case by simp
next
  case (Cons p form)
  obtain key val where p: "p = (key, val)" by (cases p)
  from Cons.prems have "\<not> dict_mem acc key"
    by (auto simp: p dict_mem_def)
  moreover from Cons.prems have "distinct (map fst ((acc @ [(key, val)]) @ form))"
    by (simp add: p)
  ultimately show ?case
    using Cons.IH [of "acc @ [(key, val)]"] by (simp add: p)
qed

lemma form_items_subset: "set (form_items form) \<subseteq> set form"
  using form_items_fold_set [of "[]" form] by (simp add: form_items_def)

lemma form_items_distinct: "distinct (map fst (form_items form))"
  using form_items_fold_distinct [of "[]" form] by (simp add: form_items_def)

lemma form_items_id: "distinct (map fst form) \<Longrightarrow> form_items form = form"
  using form_items_fold_id [of "[]" form] by (simp add: form_items_def)

lemma new_mapping_fold:
  "distinct (map fst (acc @ items)) \<Longrightarrow>
   foldl (\<lambda>m (key, val). dict_set m key (if strip val \<noteq> '''' then strip val else key)) acc items
     = acc @ map (\<lambda>(key, val). (key, effective_name key val)) items"
proof (induction items arbitrary: acc)
  case Nil
  show ?case by simp
next
  case (Cons p items)
  obtain key val where p: "p = (key, val)" by (cases p)
  from Cons.prems have "\<not> dict_mem acc key"
    by (auto simp: p dict_mem_def)
  then have "dict_set acc key (if strip val \<noteq> '''' then strip val else key)
      = acc @ [(key, effective_name key val)]"
    by (simp add: dict_set_absent effective_name_def)
  moreover from Cons.prems have "distinct (map fst ((acc @ [(key, effective_name key val)]) @ items))"
    by (simp add: p)
  ultimately show ?case
    using Cons.IH [of "acc @ [(key, effective_name key val)]"] by (simp add: p)
qed

lemma new_mapping_eq:
  "new_mapping form = map (\<lambda>(key, val). (key, effective_name key val)) (form_items form)"
  using new_mapping_fold [of "[]" "form_items form"] form_items_distinct [of form]
  by (simp add: new_mapping_def)

lemma apply_mapping_snoc:
  "apply_mapping (m @ [(k, n)]) t = replace (''['' @ k @ '']'') (''['' @ n @ '']'') (apply_mapping m t)"
  by (simp add: apply_mapping_def)

lemma apply_mapping_items:
  "apply_mapping (map (\<lambda>(key, val). (key, effective_name key val)) items) t
     = foldl (\<lambda>t (key, val). replace (''['' @ key @ '']'') (''['' @ effective_name key val @ '']'') t) t items"
  by (induction items arbitrary: t) (auto simp: apply_mapping_def)

lemma apply_mapping_skip_blank:
  "foldl (\<lambda>t (key, val). replace (''['' @ key @ '']'') (''['' @ effective_name key val @ '']'') t) t items
     = foldl (\<lambda>track (placeholder, new_name).
          if strip new_name = '''' then track
          else replace (''['' @ placeholder @ '']'') (''['' @ strip new_name @ '']'') track) t items"
proof (induction items arbitrary: t)
  case Nil
  show ?case by simp
next
  case (Cons p items)
  obtain key val where p: "p = (key, val)" by (cases p)
  show ?case
    using Cons.IH by (simp add: p effective_name_def replace_same)
qed

lemma update_speakers_stored:
  "generated_files uid = Some j \<Longrightarrow>
   update_speakers generated_files uid form =
     (RenderFinal uid,
      generated_files(uid \<mapsto> j\<lparr>vtt :=
        foldl (\<lambda>t (key, val). replace (''['' @ key @ '']'') (''['' @ effective_name key val @ '']'') t)
          (vtt j) (form_items form)\<rparr>))"
  by (simp add: update_speakers_def new_mapping_eq apply_mapping_items)

text \<open>
  Claim C3, as the claim states it, fails: the pairs are applied in the order of the
  submitted form, not in placeholder-numeric order. When the form lists SPEAKER_02 (renamed
  to SPEAKER_01) before SPEAKER_01 (renamed to Bob), both speakers end up as Bob, where the
  numeric order leaves the second speaker as SPEAKER_01.
\<close>

theorem rename_order_counterexample:
  "map_option vtt
     (snd (update_speakers
        (Map.empty(''job-1'' \<mapsto>
           \<lparr>vtt = ''WEBVTT\<newline>\<newline>00:00:00.000 --> 00:00:02.000\<newline>[SPEAKER_01] one\<newline>\<newline>00:00:02.000 --> 00:00:04.000\<newline>[SPEAKER_02] two\<newline>'',
            transcript = ''one two'', video_path = ''/tmp/u_clip.mp4'',
            job_placeholder_map = [(''A'', ''SPEAKER_01''), (''B'', ''SPEAKER_02'')]\<rparr>))
        ''job-1'' [(''SPEAKER_02'', ''SPEAKER_01''), (''SPEAKER_01'', ''Bob'')]) ''job-1'')
     = Some ''WEBVTT\<newline>\<newline>00:00:00.000 --> 00:00:02.000\<newline>[Bob] one\<newline>\<newline>00:00:02.000 --> 00:00:04.000\<newline>[Bob] two\<newline>''
   \<and> rename_in_numeric_order [(''SPEAKER_02'', ''SPEAKER_01''), (''SPEAKER_01'', ''Bob'')]
       ''WEBVTT\<newline>\<newline>00:00:00.000 --> 00:00:02.000\<newline>[SPEAKER_01] one\<newline>\<newline>00:00:02.000 --> 00:00:04.000\<newline>[SPEAKER_02] two\<newline>''
     = ''WEBVTT\<newline>\<newline>00:00:00.000 --> 00:00:02.000\<newline>[Bob] one\<newline>\<newline>00:00:02.000 --> 00:00:04.000\<newline>[SPEAKER_01] two\<newline>''"
  by code_simp

text \<open>
  Claim C3, amended. For a stored job the rename returns the final page and replaces the
  job's track by the result of applying the submitted pairs in the order in which the form
  lists their keys (each key once, with its first value; the whole form in its own order
  when no key is repeated): each pair whose new name is not blank after stripping replaces
  the bracketed placeholder by the bracketed stripped new name, as \<open>str.replace\<close> does,
  and a pair with a blank new name changes nothing.
\<close>

theorem rename_in_form_order:
  "generated_files uid = Some j \<longrightarrow>
     update_speakers generated_files uid form =
       (RenderFinal uid,
        generated_files(uid \<mapsto> j\<lparr>vtt :=
          foldl (\<lambda>track (placeholder, new_name).
                   if strip new_name = '''' then track
                   else replace (''['' @ placeholder @ '']'') (''['' @ strip new_name @ '']'') track)
            (vtt j) (form_items form)\<rparr>))
     \<and> (distinct (map fst form) \<longrightarrow> form_items form = form)"
  using update_speakers_stored [of generated_files uid j form]
        apply_mapping_skip_blank [of "vtt j" "form_items form"] form_items_id [of form]
  by simp

text \<open>
  Scenario C: SPEAKER_01 is renamed to Alice and the field of SPEAKER_02 is left blank.
\<close>

theorem rename_in_form_order_witness:
  "update_speakers
     (Map.empty(''job-1'' \<mapsto>
        \<lparr>vtt = ''WEBVTT\<newline>\<newline>00:00:00.000 --> 00:00:02.000\<newline>[SPEAKER_01] one\<newline>\<newline>00:00:02.000 --> 00:00:04.000\<newline>[SPEAKER_02] two\<newline>\<newline>00:00:04.000 --> 00:00:06.000\<newline>[SPEAKER_01] three\<newline>'',
         transcript = ''one two three'', video_path = ''/tmp/u_clip.mp4'',
         job_placeholder_map = [(''A'', ''SPEAKER_01''), (''B'', ''SPEAKER_02'')]\<rparr>))
     ''job-1'' [(''SPEAKER_01'', ''Alice''), (''SPEAKER_02'', '''')]
   = (RenderFinal ''job-1'',
      Map.empty(''job-1'' \<mapsto>
        \<lparr>vtt = ''WEBVTT\<newline>\<newline>00:00:00.000 --> 00:00:02.000\<newline>[Alice] one\<newline>\<newline>00:00:02.000 --> 00:00:04.000\<newline>[SPEAKER_02] two\<newline>\<newline>00:00:04.000 --> 00:00:06.000\<newline>[Alice] three\<newline>'',
         transcript = ''one two three'', video_path = ''/tmp/u_clip.mp4'',
         job_placeholder_map = [(''A'', ''SPEAKER_01''), (''B'', ''SPEAKER_02'')]\<rparr>))"
proof -
  let ?t = "''WEBVTT\<newline>\<newline>00:00:00.000 --> 00:00:02.000\<newline>[SPEAKER_01] one\<newline>\<newline>00:00:02.000 --> 00:00:04.000\<newline>[SPEAKER_02] two\<newline>\<newline>00:00:04.000 --> 00:00:06.000\<newline>[SPEAKER_01] three\<newline>''"
  let ?form = "[(''SPEAKER_01'', ''Alice''), (''SPEAKER_02'', '''')]"
  have items: "form_items ?form = ?form"
    by code_simp
  have run: "foldl (\<lambda>track (placeholder, new_name).
                   if strip new_name = '''' then track
                   else replace (''['' @ placeholder @ '']'') (''['' @ strip new_name @ '']'') track)
            ?t ?form
      = ''WEBVTT\<newline>\<newline>00:00:00.000 --> 00:00:02.000\<newline>[Alice] one\<newline>\<newline>00:00:02.000 --> 00:00:04.000\<newline>[SPEAKER_02] two\<newline>\<newline>00:00:04.000 --> 00:00:06.000\<newline>[Alice] three\<newline>''"
    by code_simp
  show ?thesis
    using rename_in_form_order
            [of "Map.empty(''job-1'' \<mapsto>
                  \<lparr>vtt = ?t, transcript = ''one two three'', video_path = ''/tmp/u_clip.mp4'',
                   job_placeholder_map = [(''A'', ''SPEAKER_01''), (''B'', ''SPEAKER_02'')]\<rparr>)"
                "''job-1''"
                "\<lparr>vtt = ?t, transcript = ''one two three'', video_path = ''/tmp/u_clip.mp4'',
                  job_placeholder_map = [(''A'', ''SPEAKER_01''), (''B'', ''SPEAKER_02'')]\<rparr>"
                ?form]
    by (simp only: items job.select_convs run) simp
qed

section \<open>Repeating a rename\<close>

lemma ball_pairI: "(\<And>a b. (a, b) \<in> S \<Longrightarrow> P a b) \<Longrightarrow> \<forall>(a, b) \<in> S. P a b"
  by auto

lemma ball_pairD: "\<forall>(a, b) \<in> S. P a b \<Longrightarrow> (a, b) \<in> S \<Longrightarrow> P a b"
  by auto

lemma apply_mapping_clears:
  assumes "\<forall>(k, n) \<in> set m. no_bracket k \<and> no_bracket n"
    and "\<forall>(k, n) \<in> set m. \<forall>(k', n') \<in> set m. k' \<noteq> k \<longrightarrow> n \<noteq> k'"
  shows "\<forall>(k, n) \<in> set m. k \<noteq> n \<longrightarrow> \<not> sublist (CHR ''['' # k @ '']'') (apply_mapping m t)"
  using assms
proof (induction m rule: rev_induct)
  case Nil
  show ?case by simp
next
  case (snoc p m)
  obtain k n where p: "p = (k, n)" by (cases p)
  let ?T = "apply_mapping m t"
  have names: "no_bracket a \<and> no_bracket b" if "(a, b) \<in> set (m @ [p])" for a b
    by (rule ball_pairD [OF snoc.prems(1) that])
  have apart: "b \<noteq> a'"
    if "(a, b) \<in> set (m @ [p])" "(a', b') \<in> set (m @ [p])" "a' \<noteq> a" for a b a' b'
    using ball_pairD [OF ball_pairD [OF snoc.prems(2) that(1)] that(2)] that(3) by simp
  have "\<forall>(k, n) \<in> set m. k \<noteq> n \<longrightarrow> \<not> sublist (CHR ''['' # k @ '']'') ?T"
  proof (rule snoc.IH)
    show "\<forall>(k, n) \<in> set m. no_bracket k \<and> no_bracket n"
    proof (rule ball_pairI)
      fix a b assume "(a, b) \<in> set m"
      then show "no_bracket a \<and> no_bracket b"
        using names [of a b] by simp
    qed
    show "\<forall>(k, n) \<in> set m. \<forall>(k', n') \<in> set m. k' \<noteq> k \<longrightarrow> n \<noteq> k'"
    proof (rule ball_pairI, rule ball_pairI)
      fix a b a' b' assume "(a, b) \<in> set m" "(a', b') \<in> set m"
      then show "a' \<noteq> a \<longrightarrow> b \<noteq> a'"
        using apart [of a b a' b'] by simp
    qed
  qed
  then have IH: "\<not> sublist (CHR ''['' # k' @ '']'') ?T" if "(k', n') \<in> set m" "k' \<noteq> n'" for k' n'
    using ball_pairD [OF _ that(1)] that(2) by blast
  have step: "apply_mapping (m @ [p]) t = replace (CHR ''['' # k @ '']'') (CHR ''['' # n @ '']'') ?T"
    using apply_mapping_snoc [of m k n t] by (simp add: p)
  show ?case
  proof (rule ball_pairI)
    fix k' n' assume mem: "(k', n') \<in> set (m @ [p])"
    show "k' \<noteq> n' \<longrightarrow> \<not> sublist (CHR ''['' # k' @ '']'') (apply_mapping (m @ [p]) t)"
    proof
      assume ne: "k' \<noteq> n'"
      show "\<not> sublist (CHR ''['' # k' @ '']'') (apply_mapping (m @ [p]) t)"
      proof (cases "k = n")
        case True
        with mem ne p have "(k', n') \<in> set m" by auto
        from IH [OF this ne] True show ?thesis
          by (simp add: step replace_same)
      next
        case False
        have last: "(k, n) \<in> set (m @ [p])" by (simp add: p)
        have nb: "no_bracket k'" "no_bracket n"
          using names [OF mem] names [OF last] by simp_all
        have "k' \<noteq> n"
        proof (cases "k' = k")
          case True
          with False show ?thesis by simp
        next
          case other: False
          from apart [OF last mem other] show ?thesis by simp
        qed
        moreover have "k = k' \<or> \<not> sublist (CHR ''['' # k' @ '']'') ?T"
        proof (cases "(k', n') \<in> set m")
          case True
          from IH [OF this ne] show ?thesis by simp
        next
          case False
          with mem p show ?thesis by simp
        qed
        ultimately show ?thesis
          unfolding step by (intro replace_no_new_token nb)
      qed
    qed
  qed
qed

lemma apply_mapping_fixed:
  "\<forall>(k, n) \<in> set m. k \<noteq> n \<longrightarrow> \<not> sublist (CHR ''['' # k @ '']'') t \<Longrightarrow> apply_mapping m t = t"
proof (induction m)
  case Nil
  show ?case by (simp add: apply_mapping_def)
next
  case (Cons p m)
  obtain k n where p: "p = (k, n)" by (cases p)
  have "replace (CHR ''['' # k @ '']'') (CHR ''['' # n @ '']'') t = t"
  proof (cases "k = n")
    case True
    then show ?thesis by (simp add: replace_same)
  next
    case False
    have "(k, n) \<in> set (p # m)" by (simp add: p)
    from ball_pairD [OF Cons.prems this] False
    have "\<not> sublist (CHR ''['' # k @ '']'') t" by simp
    then show ?thesis by (intro replace_absent) simp_all
  qed
  moreover have "apply_mapping m t = t"
  proof (rule Cons.IH, rule ball_pairI)
    fix a b assume "(a, b) \<in> set m"
    then have "(a, b) \<in> set (p # m)" by simp
    from ball_pairD [OF Cons.prems this]
    show "a \<noteq> b \<longrightarrow> \<not> sublist (CHR ''['' # a @ '']'') t" .
  qed
  ultimately show ?case
    by (simp add: apply_mapping_def p)
qed

lemma apply_mapping_twice:
  assumes "\<forall>(k, n) \<in> set m. no_bracket k \<and> no_bracket n"
    and "\<forall>(k, n) \<in> set m. \<forall>(k', n') \<in> set m. k' \<noteq> k \<longrightarrow> n \<noteq> k'"
  shows "apply_mapping m (apply_mapping m t) = apply_mapping m t"
  by (rule apply_mapping_fixed) (rule apply_mapping_clears [OF assms])

lemma new_mapping_member:
  assumes "(k, n) \<in> set (new_mapping form)"
  shows "\<exists>val. (k, val) \<in> set form \<and> n = effective_name k val"
proof -
  from assms obtain x where x: "x \<in> set (form_items form)"
    and kn: "(k, n) = (case x of (key, val) \<Rightarrow> (key, effective_name key val))"
    unfolding new_mapping_eq by (auto simp: image_iff)
  obtain key val where kv: "x = (key, val)" by (cases x)
  from x kv form_items_subset [of form] have "(key, val) \<in> set form" by blast
  with kn kv show ?thesis by auto
qed

lemma new_mapping_names:
  assumes "\<forall>(key, val) \<in> set form. no_bracket key \<and> no_bracket (strip val)"
    and "\<forall>(key, val) \<in> set form. \<forall>(key', val') \<in> set form. key' \<noteq> key \<longrightarrow> strip val \<noteq> key'"
  shows "\<forall>(k, n) \<in> set (new_mapping form). no_bracket k \<and> no_bracket n"
    and "\<forall>(k, n) \<in> set (new_mapping form). \<forall>(k', n') \<in> set (new_mapping form). k' \<noteq> k \<longrightarrow> n \<noteq> k'"
proof -
  show "\<forall>(k, n) \<in> set (new_mapping form). no_bracket k \<and> no_bracket n"
  proof (rule ball_pairI)
    fix k n assume "(k, n) \<in> set (new_mapping form)"
    from new_mapping_member [OF this] obtain val
      where v: "(k, val) \<in> set form" "n = effective_name k val" by blast
    from ball_pairD [OF assms(1) v(1)] v(2) show "no_bracket k \<and> no_bracket n"
      by (simp add: effective_name_def)
  qed
  show "\<forall>(k, n) \<in> set (new_mapping form). \<forall>(k', n') \<in> set (new_mapping form). k' \<noteq> k \<longrightarrow> n \<noteq> k'"
  proof (rule ball_pairI, rule ball_pairI)
    fix k n k' n' assume a: "(k, n) \<in> set (new_mapping form)" and b: "(k', n') \<in> set (new_mapping form)"
    from new_mapping_member [OF a] obtain val
      where v: "(k, val) \<in> set form" "n = effective_name k val" by blast
    from new_mapping_member [OF b] obtain val' where v': "(k', val') \<in> set form" by blast
    from ball_pairD [OF ball_pairD [OF assms(2) v(1)] v'] v(2)
    show "k' \<noteq> k \<longrightarrow> n \<noteq> k'"
      by (simp add: effective_name_def)
  qed
qed

text \<open>
  Claim C6, as the claim states it, fails: with SPEAKER_01 renamed to Bob and SPEAKER_02
  renamed to SPEAKER_01, the first application leaves the token of SPEAKER_01 on the second
  cue, and the second application turns it into Bob.
\<close>

theorem rename_twice_counterexample:
  "map_option vtt
     (snd (update_speakers
        (Map.empty(''job-1'' \<mapsto>
           \<lparr>vtt = ''WEBVTT\<newline>\<newline>00:00:00.000 --> 00:00:02.000\<newline>[SPEAKER_01] one\<newline>\<newline>00:00:02.000 --> 00:00:04.000\<newline>[SPEAKER_02] two\<newline>'',
            transcript = ''one two'', video_path = ''/tmp/u_clip.mp4'',
            job_placeholder_map = [(''A'', ''SPEAKER_01''), (''B'', ''SPEAKER_02'')]\<rparr>))
        ''job-1'' [(''SPEAKER_01'', ''Bob''), (''SPEAKER_02'', ''SPEAKER_01'')]) ''job-1'')
     = Some ''WEBVTT\<newline>\<newline>00:00:00.000 --> 00:00:02.000\<newline>[Bob] one\<newline>\<newline>00:00:02.000 --> 00:00:04.000\<newline>[SPEAKER_01] two\<newline>''
   \<and> map_option vtt
     (snd (update_speakers
        (snd (update_speakers
           (Map.empty(''job-1'' \<mapsto>
              \<lparr>vtt = ''WEBVTT\<newline>\<newline>00:00:00.000 --> 00:00:02.000\<newline>[SPEAKER_01] one\<newline>\<newline>00:00:02.000 --> 00:00:04.000\<newline>[SPEAKER_02] two\<newline>'',
               transcript = ''one two'', video_path = ''/tmp/u_clip.mp4'',
               job_placeholder_map = [(''A'', ''SPEAKER_01''), (''B'', ''SPEAKER_02'')]\<rparr>))
           ''job-1'' [(''SPEAKER_01'', ''Bob''), (''SPEAKER_02'', ''SPEAKER_01'')]))
        ''job-1'' [(''SPEAKER_01'', ''Bob''), (''SPEAKER_02'', ''SPEAKER_01'')]) ''job-1'')
     = Some ''WEBVTT\<newline>\<newline>00:00:00.000 --> 00:00:02.000\<newline>[Bob] one\<newline>\<newline>00:00:02.000 --> 00:00:04.000\<newline>[Bob] two\<newline>''"
  by code_simp

text \<open>
  Claim C6, amended. For a stored job and a rename form in which no key and no stripped
  new name contains a square bracket, and in which no stripped new name is equal to another
  key of the same form, applying the rename twice in succession gives the same response
  and the same store, hence the same track, as applying it once.
\<close>

theorem rename_idempotent_amended:
  assumes "generated_files uid = Some j"
    and "\<forall>(key, val) \<in> set form. no_bracket key \<and> no_bracket (strip val)"
    and "\<forall>(key, val) \<in> set form. \<forall>(key', val') \<in> set form. key' \<noteq> key \<longrightarrow> strip val \<noteq> key'"
  shows "update_speakers (snd (update_speakers generated_files uid form)) uid form
           = update_speakers generated_files uid form"
proof -
  let ?m = "new_mapping form"
  have "apply_mapping ?m (apply_mapping ?m (vtt j)) = apply_mapping ?m (vtt j)"
    by (rule apply_mapping_twice [OF new_mapping_names [OF assms(2,3)]])
  with assms(1) show ?thesis
    by (simp add: update_speakers_def)
qed

theorem rename_idempotent_amended_witness:
  "update_speakers
     (snd (update_speakers
        (Map.empty(''job-1'' \<mapsto>
           \<lparr>vtt = ''WEBVTT\<newline>\<newline>00:00:00.000 --> 00:00:02.000\<newline>[SPEAKER_01] one\<newline>\<newline>00:00:02.000 --> 00:00:04.000\<newline>[SPEAKER_02] two\<newline>'',
            transcript = ''one two'', video_path = ''/tmp/u_clip.mp4'',
            job_placeholder_map = [(''A'', ''SPEAKER_01''), (''B'', ''SPEAKER_02'')]\<rparr>))
        ''job-1'' [(''SPEAKER_01'', ''Alice''), (''SPEAKER_02'', '''')]))
     ''job-1'' [(''SPEAKER_01'', ''Alice''), (''SPEAKER_02'', '''')]
   = update_speakers
       (Map.empty(''job-1'' \<mapsto>
          \<lparr>vtt = ''WEBVTT\<newline>\<newline>00:00:00.000 --> 00:00:02.000\<newline>[SPEAKER_01] one\<newline>\<newline>00:00:02.000 --> 00:00:04.000\<newline>[SPEAKER_02] two\<newline>'',
           transcript = ''one two'', video_path = ''/tmp/u_clip.mp4'',
           job_placeholder_map = [(''A'', ''SPEAKER_01''), (''B'', ''SPEAKER_02'')]\<rparr>))
       ''job-1'' [(''SPEAKER_01'', ''Alice''), (''SPEAKER_02'', '''')]"
proof -
  have s: "strip ''Alice'' = ''Alice''" "strip '''' = ''''"
    by code_simp+
  show ?thesis
    by (rule rename_idempotent_amended) (simp_all add: no_bracket_def s)
qed

section \<open>Keys that are not placeholders\<close>

lemma no_straddle:
  assumes "no_bracket k" and "x \<noteq> []"
    and "prefix (CHR ''['' # k @ '']'') (x @ CHR ''['' # y)"
  shows "prefix (CHR ''['' # k @ '']'') x"
proof -
  from assms(3) consider "prefix (CHR ''['' # k @ '']'') x"
    | us where "CHR ''['' # k @ '']'' = x @ us" "prefix us (CHR ''['' # y)"
    by (auto simp: prefix_append)
  then show ?thesis
  proof cases
    case 1
    then show ?thesis .
  next
    case 2
    show ?thesis
    proof (cases us)
      case Nil
      with 2(1) show ?thesis by simp
    next
      case (Cons u us')
      with 2(2) have "u = CHR ''[''" by simp
      moreover from assms(2) obtain c x' where "x = c # x'" by (cases x) auto
      ultimately have "k @ '']'' = x' @ CHR ''['' # us'"
        using 2(1) Cons by simp
      then have "CHR ''['' \<in> set (k @ '']'')" by simp
      with assms(1) show ?thesis by (simp add: no_bracket_def)
    qed
  qed
qed

lemma replace_at_token:
  assumes "no_bracket k"
  shows "replace (CHR ''['' # k @ '']'') new (a @ (CHR ''['' # k @ '']'') @ b)
           = replace (CHR ''['' # k @ '']'') new a @ new @ replace (CHR ''['' # k @ '']'') new b"
proof (induction a rule: length_induct)
  case (1 a)
  let ?old = "CHR ''['' # k @ '']''"
  show ?case
  proof (cases a)
    case Nil
    have "replace ?old new (?old @ b) = new @ replace ?old new (drop (length ?old) (?old @ b))"
      by simp
    then show ?thesis using Nil by simp
  next
    case (Cons c a')
    show ?thesis
    proof (cases "prefix ?old (c # a')")
      case True
      then obtain r where r: "c # a' = ?old @ r"
        by (auto simp: prefix_def)
      then have "length r < length a" using Cons arg_cong [OF r, of length] by simp
      then have IH: "replace ?old new (r @ ?old @ b) = replace ?old new r @ new @ replace ?old new b"
        using "1.IH" [rule_format, of r] by simp
      have left: "replace ?old new (?old @ (r @ ?old @ b)) = new @ replace ?old new (r @ ?old @ b)"
        by simp
      have right: "replace ?old new (?old @ r) = new @ replace ?old new r"
        by simp
      have "a @ ?old @ b = ?old @ (r @ ?old @ b)" "a = ?old @ r"
        using Cons r by simp_all
      then show ?thesis
        using left right IH by (simp only: append_assoc)
    next
      case False
      have "\<not> prefix ?old ((c # a') @ CHR ''['' # (k @ '']'' @ b))"
        using no_straddle [OF assms, of "c # a'" "k @ '']'' @ b"] False by blast
      then have "\<not> prefix ?old (c # (a' @ ?old @ b))" by simp
      then have left: "replace ?old new (c # (a' @ ?old @ b)) = c # replace ?old new (a' @ ?old @ b)"
        by (simp only: replace.simps) simp
      from False have right: "replace ?old new (c # a') = c # replace ?old new a'"
        by (simp only: replace.simps) simp
      have "length a' < length a" using Cons by simp
      then have "replace ?old new (a' @ ?old @ b) = replace ?old new a' @ new @ replace ?old new b"
        using "1.IH" [rule_format, of a'] by simp
      with left right Cons show ?thesis by simp
    qed
  qed
qed

lemma update_speakers_single:
  assumes "generated_files uid = Some j" and "strip val \<noteq> ''''"
  shows "update_speakers generated_files uid [(key, val)] =
           (RenderFinal uid,
            generated_files(uid \<mapsto> j\<lparr>vtt := replace (''['' @ key @ '']'') (''['' @ strip val @ '']'') (vtt j)\<rparr>))"
  using assms
  by (simp add: update_speakers_def new_mapping_def form_items_def dict_mem_def apply_mapping_def)

lemma update_speakers_blank:
  assumes "generated_files uid = Some j" and "strip val = ''''"
  shows "update_speakers generated_files uid [(key, val)] = (RenderFinal uid, generated_files(uid \<mapsto> j))"
proof -
  have "replace (''['' @ key @ '']'') (''['' @ key @ '']'') (vtt j) = vtt j"
    by (rule replace_same)
  with assms show ?thesis
    by (simp add: update_speakers_def new_mapping_def form_items_def dict_mem_def apply_mapping_def)
qed

lemma form_items_fold_first:
  "foldl (\<lambda>acc (key, val). if dict_mem acc key then acc else acc @ [(key, val)]) acc form
     = acc @ map (\<lambda>k. (k, the (map_of form k)))
               (filter (\<lambda>k. k \<notin> set (map fst acc)) (first_seen (map fst form)))"
proof (induction form arbitrary: acc)
  case Nil
  show ?case by simp
next
  case (Cons p form)
  obtain k v where p: "p = (k, v)" by (cases p)
  let ?ks = "first_seen (map fst form)"
  show ?case
  proof (cases "dict_mem acc k")
    case True
    then have in_acc: "\<not> k \<notin> set (map fst acc)" by (simp add: dict_mem_def)
    have "map (\<lambda>x. (x, the (map_of ((k, v) # form) x))) (filter (\<lambda>x. x \<notin> set (map fst acc)) ?ks)
        = map (\<lambda>x. (x, the (map_of form x))) (filter (\<lambda>x. x \<notin> set (map fst acc)) ?ks)"
      using in_acc by (intro map_cong) auto
    moreover have "filter (\<lambda>x. x \<notin> set (map fst acc)) (k # removeAll k ?ks)
        = filter (\<lambda>x. x \<notin> set (map fst acc)) ?ks"
      using in_acc filter_removeAll_in [of "\<lambda>x. x \<notin> set (map fst acc)" k ?ks] by simp
    ultimately show ?thesis
      using Cons.IH [of acc] True by (simp add: p del: set_map)
  next
    case False
    then have out: "k \<notin> set (map fst acc)" by (simp add: dict_mem_def)
    have f: "filter (\<lambda>x. x \<notin> set (map fst (acc @ [(k, v)]))) ?ks
        = filter (\<lambda>x. x \<notin> set (map fst acc) \<and> x \<noteq> k) ?ks"
      by (intro filter_cong) auto
    have "map (\<lambda>x. (x, the (map_of ((k, v) # form) x)))
            (filter (\<lambda>x. x \<notin> set (map fst acc) \<and> x \<noteq> k) ?ks)
        = map (\<lambda>x. (x, the (map_of form x))) (filter (\<lambda>x. x \<notin> set (map fst acc) \<and> x \<noteq> k) ?ks)"
      by (intro map_cong) auto
    moreover have "filter (\<lambda>x. x \<notin> set (map fst acc)) (k # removeAll k ?ks)
        = k # filter (\<lambda>x. x \<notin> set (map fst acc) \<and> x \<noteq> k) ?ks"
      using out filter_removeAll_out [of "\<lambda>x. x \<notin> set (map fst acc)" k ?ks] by simp
    ultimately show ?thesis
      using Cons.IH [of "acc @ [(k, v)]"] False f by (simp add: p del: set_map)
  qed
qed

lemma form_items_first:
  "form_items form = map (\<lambda>k. (k, the (map_of form k))) (first_seen (map fst form))"
  using form_items_fold_first [of "[]" form] by (simp add: form_items_def)

lemma foldl_first_values:
  "set ks \<subseteq> set (map fst form) \<Longrightarrow>
   foldl (\<lambda>t (key, val). f key val t) t (map (\<lambda>k. (k, the (map_of form k))) ks)
     = foldl (\<lambda>t key. case map_of form key of None \<Rightarrow> t | Some val \<Rightarrow> f key val t) t ks"
proof (induction ks arbitrary: t)
  case Nil
  show ?case by simp
next
  case (Cons k ks)
  then have "k \<in> set (map fst form)" by simp
  then obtain val where "map_of form k = Some val"
    by (metis map_of_eq_None_iff not_None_eq set_map)
  with Cons show ?case by simp
qed

lemma update_speakers_every_key:
  assumes "generated_files uid = Some j"
  shows "update_speakers generated_files uid form =
       (RenderFinal uid,
        generated_files(uid \<mapsto> j\<lparr>vtt :=
          foldl (\<lambda>track key. case map_of form key of
                     None \<Rightarrow> track
                   | Some val \<Rightarrow>
                       if strip val = '''' then track
                       else replace (''['' @ key @ '']'') (''['' @ strip val @ '']'') track)
            (vtt j) (first_seen (map fst form))\<rparr>))"
proof -
  have "foldl (\<lambda>t (key, val). replace (''['' @ key @ '']'') (''['' @ effective_name key val @ '']'') t)
          (vtt j) (form_items form)
      = foldl (\<lambda>track (placeholder, new_name).
          if strip new_name = '''' then track
          else replace (''['' @ placeholder @ '']'') (''['' @ strip new_name @ '']'') track)
          (vtt j) (form_items form)"
    by (rule apply_mapping_skip_blank)
  also have "\<dots> = foldl (\<lambda>track key. case map_of form key of
                     None \<Rightarrow> track
                   | Some val \<Rightarrow>
                       if strip val = '''' then track
                       else replace (''['' @ key @ '']'') (''['' @ strip val @ '']'') track)
            (vtt j) (first_seen (map fst form))"
    unfolding form_items_first
    by (rule foldl_first_values) (simp add: set_first_seen)
  finally show ?thesis
    using update_speakers_stored [where generated_files = generated_files and uid = uid, OF assms, of form]
    by simp
qed

lemma update_speakers_ignores_mapping:
  assumes "generated_files uid = Some j"
  shows "map_option vtt (snd (update_speakers (generated_files(uid \<mapsto> j\<lparr>job_placeholder_map := pm\<rparr>)) uid form) uid)
       = map_option vtt (snd (update_speakers generated_files uid form) uid)"
  using assms by (simp add: update_speakers_def)

text \<open>
  Claim C10, as the claim states it, fails: the value is stripped before it is written, and
  a value that is blank after stripping leaves the token of the key as it is. For the key
  note, which is no placeholder of the job, the value x between two spaces writes the token
  of x without the spaces, and the value of two spaces writes nothing.
\<close>

theorem rename_value_stripped_counterexample:
  "map_option vtt
     (snd (update_speakers
        (Map.empty(''job-1'' \<mapsto>
           \<lparr>vtt = ''WEBVTT\<newline>\<newline>00:00:00.000 --> 00:00:02.000\<newline>[SPEAKER_01] see [note]\<newline>'',
            transcript = ''see [note]'', video_path = ''/tmp/u_clip.mp4'',
            job_placeholder_map = [(''Unknown'', ''SPEAKER_01'')]\<rparr>))
        ''job-1'' [(''note'', '' x '')]) ''job-1'')
     = Some ''WEBVTT\<newline>\<newline>00:00:00.000 --> 00:00:02.000\<newline>[SPEAKER_01] see [x]\<newline>''
   \<and> map_option vtt
     (snd (update_speakers
        (Map.empty(''job-1'' \<mapsto>
           \<lparr>vtt = ''WEBVTT\<newline>\<newline>00:00:00.000 --> 00:00:02.000\<newline>[SPEAKER_01] see [note]\<newline>'',
            transcript = ''see [note]'', video_path = ''/tmp/u_clip.mp4'',
            job_placeholder_map = [(''Unknown'', ''SPEAKER_01'')]\<rparr>))
        ''job-1'' [(''note'', ''  '')]) ''job-1'')
     = Some ''WEBVTT\<newline>\<newline>00:00:00.000 --> 00:00:02.000\<newline>[SPEAKER_01] see [note]\<newline>''"
  by code_simp

text \<open>
  Claim C10, amended. For a stored job the rename goes through every key of the submitted
  form, in the order of the keys' first occurrences and each with its first value, and
  never consults the job's placeholder mapping: a key whose value is blank after stripping
  changes nothing, and every other key has the bracketed key replaced, as \<open>str.replace\<close>
  does, by the bracketed stripped value, whether or not the key is a placeholder of the
  job. The new track is the same whatever the placeholder mapping of the job is. For a form
  with a single pair this gives the track with the one replacement, or the unchanged job
  when the value is blank. When the key has no square bracket the replacement acts on every
  occurrence: a track that splits at an occurrence of the bracketed key is rewritten part
  by part with the new token in between, and when moreover the stripped value has no square
  bracket and differs from the key, no occurrence of the bracketed key is left.
\<close>

theorem rename_unvalidated_key_amended:
  "generated_files uid = Some j \<longrightarrow>
     update_speakers generated_files uid form =
       (RenderFinal uid,
        generated_files(uid \<mapsto> j\<lparr>vtt :=
          foldl (\<lambda>track key. case map_of form key of
                     None \<Rightarrow> track
                   | Some val \<Rightarrow>
                       if strip val = '''' then track
                       else replace (''['' @ key @ '']'') (''['' @ strip val @ '']'') track)
            (vtt j) (first_seen (map fst form))\<rparr>))
     \<and> map_option vtt
           (snd (update_speakers (generated_files(uid \<mapsto> j\<lparr>job_placeholder_map := pm\<rparr>)) uid form) uid)
         = map_option vtt (snd (update_speakers generated_files uid form) uid)
     \<and> (strip val \<noteq> '''' \<longrightarrow>
          update_speakers generated_files uid [(key, val)] =
            (RenderFinal uid,
             generated_files(uid \<mapsto> j\<lparr>vtt :=
               replace (''['' @ key @ '']'') (''['' @ strip val @ '']'') (vtt j)\<rparr>)))
     \<and> (strip val = '''' \<longrightarrow>
          update_speakers generated_files uid [(key, val)] = (RenderFinal uid, generated_files(uid \<mapsto> j)))
     \<and> (no_bracket key \<and> vtt j = a @ (''['' @ key @ '']'') @ b \<longrightarrow>
          replace (''['' @ key @ '']'') new (vtt j)
            = replace (''['' @ key @ '']'') new a @ new @ replace (''['' @ key @ '']'') new b)
     \<and> (no_bracket key \<and> no_bracket (strip val) \<and> strip val \<noteq> key \<longrightarrow>
          \<not> sublist (''['' @ key @ '']'')
              (replace (''['' @ key @ '']'') (''['' @ strip val @ '']'') (vtt j)))"
proof (intro impI conjI)
  assume j: "generated_files uid = Some j"
  show "update_speakers generated_files uid form =
       (RenderFinal uid,
        generated_files(uid \<mapsto> j\<lparr>vtt :=
          foldl (\<lambda>track key. case map_of form key of
                     None \<Rightarrow> track
                   | Some val \<Rightarrow>
                       if strip val = '''' then track
                       else replace (''['' @ key @ '']'') (''['' @ strip val @ '']'') track)
            (vtt j) (first_seen (map fst form))\<rparr>))"
    using j by (rule update_speakers_every_key [where generated_files = generated_files and uid = uid])
  show "map_option vtt
           (snd (update_speakers (generated_files(uid \<mapsto> j\<lparr>job_placeholder_map := pm\<rparr>)) uid form) uid)
         = map_option vtt (snd (update_speakers generated_files uid form) uid)"
    using j by (rule update_speakers_ignores_mapping [where generated_files = generated_files and uid = uid])
  show "update_speakers generated_files uid [(key, val)] =
            (RenderFinal uid,
             generated_files(uid \<mapsto> j\<lparr>vtt :=
               replace (''['' @ key @ '']'') (''['' @ strip val @ '']'') (vtt j)\<rparr>))"
    if "strip val \<noteq> ''''"
    using j that by (rule update_speakers_single [where generated_files = generated_files and uid = uid])
  show "update_speakers generated_files uid [(key, val)] = (RenderFinal uid, generated_files(uid \<mapsto> j))"
    if "strip val = ''''"
    using j that by (rule update_speakers_blank [where generated_files = generated_files and uid = uid])
  show "replace (''['' @ key @ '']'') new (vtt j)
            = replace (''['' @ key @ '']'') new a @ new @ replace (''['' @ key @ '']'') new b"
    if "no_bracket key \<and> vtt j = a @ (''['' @ key @ '']'') @ b"
    using that replace_at_token [of key new a b] by simp
  show "\<not> sublist (''['' @ key @ '']'')
              (replace (''['' @ key @ '']'') (''['' @ strip val @ '']'') (vtt j))"
    if "no_bracket key \<and> no_bracket (strip val) \<and> strip val \<noteq> key"
  proof -
    from that have "no_bracket key" "no_bracket (strip val)" "key \<noteq> strip val"
      by auto
    from replace_no_new_token [OF this, of key "vtt j"] show ?thesis
      by simp
  qed
qed

text \<open>
  The job knows the placeholder SPEAKER_01 only. The form renames it to Alice and renames
  the word note, which stands in brackets in the text of the cue, to x; a form with the
  word note and a blank value changes nothing.
\<close>

theorem rename_unvalidated_key_amended_witness:
  "update_speakers
     (Map.empty(''job-1'' \<mapsto>
        \<lparr>vtt = ''WEBVTT\<newline>\<newline>00:00:00.000 --> 00:00:02.000\<newline>[SPEAKER_01] see [note]\<newline>'',
         transcript = ''see [note]'', video_path = ''/tmp/u_clip.mp4'',
         job_placeholder_map = [(''Unknown'', ''SPEAKER_01'')]\<rparr>))
     ''job-1'' [(''SPEAKER_01'', ''Alice''), (''note'', '' x '')]
   = (RenderFinal ''job-1'',
      Map.empty(''job-1'' \<mapsto>
        \<lparr>vtt = ''WEBVTT\<newline>\<newline>00:00:00.000 --> 00:00:02.000\<newline>[Alice] see [x]\<newline>'',
         transcript = ''see [note]'', video_path = ''/tmp/u_clip.mp4'',
         job_placeholder_map = [(''Unknown'', ''SPEAKER_01'')]\<rparr>))
   \<and> update_speakers
     (Map.empty(''job-1'' \<mapsto>
        \<lparr>vtt = ''WEBVTT\<newline>\<newline>00:00:00.000 --> 00:00:02.000\<newline>[SPEAKER_01] see [note]\<newline>'',
         transcript = ''see [note]'', video_path = ''/tmp/u_clip.mp4'',
         job_placeholder_map = [(''Unknown'', ''SPEAKER_01'')]\<rparr>))
     ''job-1'' [(''note'', ''  '')]
   = (RenderFinal ''job-1'',
      Map.empty(''job-1'' \<mapsto>
        \<lparr>vtt = ''WEBVTT\<newline>\<newline>00:00:00.000 --> 00:00:02.000\<newline>[SPEAKER_01] see [note]\<newline>'',
         transcript = ''see [note]'', video_path = ''/tmp/u_clip.mp4'',
         job_placeholder_map = [(''Unknown'', ''SPEAKER_01'')]\<rparr>))
   \<and> replace ''[note]'' ''[x]''
        ''WEBVTT\<newline>\<newline>00:00:00.000 --> 00:00:02.000\<newline>[SPEAKER_01] see [note]\<newline>''
      = replace ''[note]'' ''[x]'' ''WEBVTT\<newline>\<newline>00:00:00.000 --> 00:00:02.000\<newline>[SPEAKER_01] see ''
        @ ''[x]'' @ replace ''[note]'' ''[x]'' ''\<newline>''
   \<and> \<not> sublist ''[note]''
        (replace ''[note]'' ''[x]''
           ''WEBVTT\<newline>\<newline>00:00:00.000 --> 00:00:02.000\<newline>[SPEAKER_01] see [note]\<newline>'')"
proof -
  let ?t = "''WEBVTT\<newline>\<newline>00:00:00.000 --> 00:00:02.000\<newline>[SPEAKER_01] see [note]\<newline>''"
  let ?j = "\<lparr>vtt = ?t, transcript = ''see [note]'', video_path = ''/tmp/u_clip.mp4'',
             job_placeholder_map = [(''Unknown'', ''SPEAKER_01'')]\<rparr>"
  let ?form = "[(''SPEAKER_01'', ''Alice''), (''note'', '' x '')]"
  have s: "strip '' x '' = ''x''" "strip ''  '' = []"
    by code_simp+
  have nb: "no_bracket ''note''" "no_bracket ''x''"
    by (simp_all add: no_bracket_def)
  have run: "foldl (\<lambda>track key. case map_of ?form key of
                     None \<Rightarrow> track
                   | Some val \<Rightarrow>
                       if strip val = '''' then track
                       else replace (''['' @ key @ '']'') (''['' @ strip val @ '']'') track)
            ?t (first_seen (map fst ?form))
      = ''WEBVTT\<newline>\<newline>00:00:00.000 --> 00:00:02.000\<newline>[Alice] see [x]\<newline>''"
    by code_simp
  have stored: "(Map.empty(''job-1'' \<mapsto> ?j)) ''job-1'' = Some ?j"
    by simp
  note two = rename_unvalidated_key_amended
         [of "Map.empty(''job-1'' \<mapsto> ?j)" "''job-1''" ?j ?form _ "'' x ''" "''note''"
             "''WEBVTT\<newline>\<newline>00:00:00.000 --> 00:00:02.000\<newline>[SPEAKER_01] see ''" "''\<newline>''" "''[x]''",
          THEN mp, OF stored]
  note blank = rename_unvalidated_key_amended
         [of "Map.empty(''job-1'' \<mapsto> ?j)" "''job-1''" ?j ?form _ "''  ''" "''note''",
          THEN mp, OF stored]
  have first: "update_speakers (Map.empty(''job-1'' \<mapsto> ?j)) ''job-1'' ?form
      = (RenderFinal ''job-1'',
         (Map.empty(''job-1'' \<mapsto> ?j))(''job-1'' \<mapsto> ?j\<lparr>vtt :=
            ''WEBVTT\<newline>\<newline>00:00:00.000 --> 00:00:02.000\<newline>[Alice] see [x]\<newline>''\<rparr>))"
    using two [THEN conjunct1] by (simp only: job.select_convs run)
  have second: "update_speakers (Map.empty(''job-1'' \<mapsto> ?j)) ''job-1'' [(''note'', ''  '')]
      = (RenderFinal ''job-1'', (Map.empty(''job-1'' \<mapsto> ?j))(''job-1'' \<mapsto> ?j))"
    using blank [THEN conjunct2, THEN conjunct2, THEN conjunct2, THEN conjunct1]
    by (simp add: s)
  have split: "replace ''[note]'' ''[x]'' ?t
      = replace ''[note]'' ''[x]'' ''WEBVTT\<newline>\<newline>00:00:00.000 --> 00:00:02.000\<newline>[SPEAKER_01] see ''
        @ ''[x]'' @ replace ''[note]'' ''[x]'' ''\<newline>''"
    using two [THEN conjunct2, THEN conjunct2, THEN conjunct2, THEN conjunct2, THEN conjunct1]
    by (simp add: nb del: replace.simps)
  have gone: "\<not> sublist ''[note]'' (replace ''[note]'' ''[x]'' ?t)"
    using two [THEN conjunct2, THEN conjunct2, THEN conjunct2, THEN conjunct2, THEN conjunct2]
    by (simp add: s nb del: replace.simps)
  from first second split gone show ?thesis
    by simp
qed

end
